theory Spec2Isabelle
  imports Main "HOL-Library.Multiset"
begin

section \<open>Minesweeper (src/main.py): the game engine and its leaderboard\<close>

text \<open>
  A shallow embedding of the game logic of \<open>MinesweeperGame\<close>. Python integers are
  \<open>int\<close>, exceptions are values of \<open>py_error\<close>, and the mutable objects of the game
  (the grid of \<open>FieldButton\<close> widgets, the leaderboard tables, the CSV files) are fields
  of one explicit state record that every operation takes and returns.
\<close>

subsection \<open>Data\<close>

datatype py_error = IndexError | ValueError

text \<open>The Tk options of a button that the game logic reads back: \<open>state\<close> and \<open>text\<close>.
  The text is the empty string, the flag emoji, the star of a revealed mine or a count.\<close>

datatype widget_state = Normal | Disabled

datatype caption = Blank | Flag | Star | Digit int

record FieldButton =
  number :: int
  is_mine :: bool
  adjacent_mines :: int
  is_open :: bool
  state :: widget_state
  btn_text :: caption

text \<open>
  \<open>create_game_grid\<close> builds \<open>self.buttons\<close> as \<open>height + 2\<close> rows of \<open>width + 2\<close>
  buttons and gives the button at \<open>[i][j]\<close> the attributes \<open>row = i\<close>, \<open>col = j\<close>, which
  nothing reassigns. A reference to a button (an element of the flood-fill work list, the
  widget of an event) is therefore modelled by the pair \<open>(row, col)\<close>, and the grid is a
  store from such references to button records. The grid is rebuilt whenever the
  dimensions change (\<open>set_difficulty\<close> calls \<open>reset_game\<close>), so its shape is always
  \<open>(height + 2) \<times> (width + 2)\<close>.
\<close>

type_synonym ref = "int \<times> int"

datatype difficulty = Beginner | Intermediate | Expert

record LeaderboardEntry =
  name :: "string option"
  time :: int

text \<open>A leaderboard file as \<open>csv.reader\<close> delivers it: the list of its rows, each a list
  of fields, or a file whose reading raises (the outer \<open>except Exception\<close>).\<close>

datatype csv_file = Unreadable | Rows "string list list"

datatype dialog = GameOverBox | WonBox int | NamePrompt difficulty | LeaderboardWindow

record game =
  height :: int
  width :: int
  mines :: int
  flags_left :: int
  game_over :: bool
  is_first_click :: bool
  timer_running :: bool
  buttons :: "ref \<Rightarrow> FieldButton"
  player_name :: "string option"
  leaderboards :: "difficulty \<Rightarrow> LeaderboardEntry list"
  files :: "difficulty \<Rightarrow> csv_file option"
  dialogs :: "dialog list"

text \<open>
  What the surroundings supply to one call: the permutation \<open>random.shuffle\<close> applies,
  the builtin \<open>int()\<close> on strings (\<open>None\<close> is its \<open>ValueError\<close>), the value of
  \<open>int(time.time() - self.start_time)\<close> at a win, and what the player does with the name
  prompt (\<open>None\<close>: the window is closed without pressing OK).
\<close>

record env =
  shuffle :: "int list \<Rightarrow> int list"
  int_of_str :: "string \<Rightarrow> int option"
  elapsed :: int
  typed_name :: "string option"

subsection \<open>Python sequences\<close>

text \<open>Index \<open>i\<close> into a sequence of length \<open>n\<close>: negative indices count from the end.\<close>

definition py_index :: "int \<Rightarrow> int \<Rightarrow> py_error + int" where
  "py_index n i =
     (let j = (if i < 0 then n + i else i)
      in if 0 \<le> j \<and> j < n then Inr j else Inl IndexError)"

text \<open>\<open>self.buttons[i][j]\<close>: the reference found there.\<close>

definition btn_at :: "game \<Rightarrow> int \<Rightarrow> int \<Rightarrow> py_error + ref" where
  "btn_at g i j =
     (case py_index (height g + 2) i of
        Inl err \<Rightarrow> Inl err
      | Inr r \<Rightarrow> (case py_index (width g + 2) j of
                   Inl err \<Rightarrow> Inl err
                 | Inr c \<Rightarrow> Inr (r, c)))"

text \<open>\<open>xs.remove(x)\<close> and the slice \<open>xs[:m]\<close>.\<close>

definition py_remove :: "int \<Rightarrow> int list \<Rightarrow> py_error + int list" where
  "py_remove x xs = (if x \<in> set xs then Inr (remove1 x xs) else Inl ValueError)"

definition py_prefix :: "int \<Rightarrow> 'a list \<Rightarrow> 'a list" where
  "py_prefix m xs =
     (if 0 \<le> m then take (nat m) xs else take (length xs - nat (- m)) xs)"

text \<open>\<open>str(n)\<close> for an integer.\<close>

fun str_nat :: "nat \<Rightarrow> string" where
  "str_nat n =
     (if n < 10 then [''0123456789'' ! n]
      else str_nat (n div 10) @ [''0123456789'' ! (n mod 10)])"

declare str_nat.simps [simp del]

definition py_str :: "int \<Rightarrow> string" where
  "py_str i = (if i < 0 then CHR ''-'' # str_nat (nat (- i)) else str_nat (nat i))"

text \<open>The interior cells in the order of the nested loops
  \<open>for i in range(1, height + 1): for j in range(1, width + 1)\<close>.\<close>

definition interior :: "int \<Rightarrow> int \<Rightarrow> ref list" where
  "interior h w = [(i, j). i \<leftarrow> [1..h], j \<leftarrow> [1..w]]"

text \<open>The offsets of \<open>for dx in [-1, 0, 1]: for dy in [-1, 0, 1]\<close>.\<close>

definition offsets :: "(int \<times> int) list" where
  "offsets = [(dx, dy). dx \<leftarrow> [-1, 0, 1], dy \<leftarrow> [-1, 0, 1]]"

subsection \<open>Building the board\<close>

definition new_button :: FieldButton where
  "new_button =
     \<lparr>number = 0, is_mine = False, adjacent_mines = 0, is_open = False,
      state = Normal, btn_text = Blank\<rparr>"

definition create_game_grid :: "ref \<Rightarrow> FieldButton" where
  "create_game_grid = (\<lambda>_. new_button)"

text \<open>The numbering loop of \<open>create_menu\<close>, with its counter \<open>count\<close>.\<close>

fun number_cells :: "ref list \<Rightarrow> int \<Rightarrow> (ref \<Rightarrow> FieldButton) \<Rightarrow> ref \<Rightarrow> FieldButton" where
  "number_cells [] cnt bs = bs"
| "number_cells (p # ps) cnt bs =
     number_cells ps (cnt + 1) (bs(p := (bs p)\<lparr>number := cnt\<rparr>))"

definition reset_game :: "game \<Rightarrow> game" where
  "reset_game g =
     g\<lparr>timer_running := False, is_first_click := True, game_over := False,
       flags_left := mines g,
       buttons := number_cells (interior (height g) (width g)) 1 create_game_grid\<rparr>"

definition set_difficulty :: "int \<times> int \<times> int \<Rightarrow> game \<Rightarrow> game" where
  "set_difficulty settings g =
     (case settings of (h, w, m) \<Rightarrow> reset_game (g\<lparr>height := h, width := w, mines := m\<rparr>))"

definition BEGINNER_OPTIONS :: "int \<times> int \<times> int" where
  "BEGINNER_OPTIONS = (9, 9, 15)"

definition INTERMEDIATE_OPTIONS :: "int \<times> int \<times> int" where
  "INTERMEDIATE_OPTIONS = (16, 16, 40)"

definition EXPERT_OPTIONS :: "int \<times> int \<times> int" where
  "EXPERT_OPTIONS = (16, 30, 99)"

text \<open>The state after \<open>MinesweeperGame.__init__\<close>, over the files found on disk.\<close>

definition init_game :: "(difficulty \<Rightarrow> csv_file option) \<Rightarrow> game" where
  "init_game fs =
     \<lparr>height = 9, width = 9, mines = 15, flags_left = 15, game_over = False,
      is_first_click = True, timer_running = False,
      buttons = number_cells (interior 9 9) 1 create_game_grid,
      player_name = None, leaderboards = (\<lambda>_. []), files = fs, dialogs = []\<rparr>"

subsection \<open>Flags\<close>

definition toggle_flag :: "game \<Rightarrow> ref \<Rightarrow> game" where
  "toggle_flag g button =
     (if game_over g then g
      else if state (buttons g button) = Normal \<and> flags_left g > 0 then
        g\<lparr>flags_left := flags_left g - 1,
          buttons := (buttons g)(button :=
            (buttons g button)\<lparr>state := Disabled, btn_text := Flag\<rparr>)\<rparr>
      else if btn_text (buttons g button) = Flag then
        g\<lparr>flags_left := flags_left g + 1,
          buttons := (buttons g)(button :=
            (buttons g button)\<lparr>state := Normal, btn_text := Blank\<rparr>)\<rparr>
      else g)"

subsection \<open>Mine placement\<close>

definition get_mines_places :: "env \<Rightarrow> game \<Rightarrow> int \<Rightarrow> py_error + int list" where
  "get_mines_places e g exclude_number =
     (case py_remove exclude_number [1..width g * height g] of
        Inl err \<Rightarrow> Inl err
      | Inr indexes \<Rightarrow> Inr (py_prefix (mines g) (shuffle e indexes)))"

definition mark_mine :: "int list \<Rightarrow> ref \<Rightarrow> game \<Rightarrow> game" where
  "mark_mine index_mines p g =
     (if number (buttons g p) \<in> set index_mines
      then g\<lparr>buttons := (buttons g)(p := (buttons g p)\<lparr>is_mine := True\<rparr>)\<rparr>
      else g)"

definition place_mines :: "env \<Rightarrow> game \<Rightarrow> int \<Rightarrow> py_error + game" where
  "place_mines e g n =
     (case get_mines_places e g n of
        Inl err \<Rightarrow> Inl err
      | Inr index_mines \<Rightarrow>
          Inr (fold (mark_mine index_mines) (interior (height g) (width g)) g))"

subsection \<open>Adjacency\<close>

text \<open>The inner double loop over the nine offsets; the indices \<open>i + row_dx\<close>,
  \<open>j + col_dx\<close> stay inside the grid because \<open>(i, j)\<close> is an interior cell.\<close>

definition count_around :: "game \<Rightarrow> ref \<Rightarrow> int" where
  "count_around g p =
     fold (\<lambda>d n. if is_mine (buttons g (fst p + fst d, snd p + snd d)) then n + 1 else n)
       offsets 0"

definition set_adjacent :: "ref \<Rightarrow> game \<Rightarrow> game" where
  "set_adjacent p g =
     g\<lparr>buttons := (buttons g)(p := (buttons g p)
        \<lparr>adjacent_mines := (if is_mine (buttons g p) then 0 else count_around g p)\<rparr>)\<rparr>"

definition calculate_adjacent_mines :: "game \<Rightarrow> game" where
  "calculate_adjacent_mines g = fold set_adjacent (interior (height g) (width g)) g"

subsection \<open>Flood-fill reveal\<close>

text \<open>What one iteration does to the button it popped: the display changes only when
  the button carries no flag; \<open>is_open\<close> is set in either case.\<close>

definition reveal_cell :: "FieldButton \<Rightarrow> FieldButton" where
  "reveal_cell b =
     (if btn_text b \<noteq> Flag
      then b\<lparr>btn_text := (if adjacent_mines b \<noteq> 0 then Digit (adjacent_mines b) else Blank),
             state := Disabled\<rparr>
      else b)\<lparr>is_open := True\<rparr>"

text \<open>
  The neighbour loop. Besides the work list \<open>queue\<close> the model threads \<open>added\<close>, the
  list of every reference put on the work list so far; it records the appends and decides
  nothing.
\<close>

fun enqueue_neighbours ::
  "game \<Rightarrow> ref \<Rightarrow> (int \<times> int) list \<Rightarrow> ref list \<Rightarrow> ref list \<Rightarrow> py_error + ref list \<times> ref list"
where
  "enqueue_neighbours g cur [] queue added = Inr (queue, added)"
| "enqueue_neighbours g cur (d # ds) queue added =
     (case btn_at g (fst cur + fst d) (snd cur + snd d) of
        Inl err \<Rightarrow> Inl err
      | Inr next_btn \<Rightarrow>
          if \<not> is_open (buttons g next_btn)
             \<and> 1 \<le> fst next_btn \<and> fst next_btn \<le> height g
             \<and> 1 \<le> snd next_btn \<and> snd next_btn \<le> width g
             \<and> next_btn \<notin> set queue
          then enqueue_neighbours g cur ds (queue @ [next_btn]) (added @ [next_btn])
          else enqueue_neighbours g cur ds queue added)"

text \<open>One iteration of \<open>while queue\<close>: \<open>queue.pop()\<close> takes the last element.\<close>

definition reveal_step ::
  "game \<Rightarrow> ref list \<Rightarrow> ref list \<Rightarrow> py_error + game \<times> ref list \<times> ref list"
where
  "reveal_step g queue added =
     (let cur_btn = last queue;
          g1 = g\<lparr>buttons := (buttons g)(cur_btn := reveal_cell (buttons g cur_btn))\<rparr>
      in if adjacent_mines (buttons g1 cur_btn) = 0
         then (case enqueue_neighbours g1 cur_btn offsets (butlast queue) added of
                 Inl err \<Rightarrow> Inl err
               | Inr (queue', added') \<Rightarrow> Inr (g1, queue', added'))
         else Inr (g1, butlast queue, added))"

function reveal_loop :: "game \<Rightarrow> ref list \<Rightarrow> ref list \<Rightarrow> py_error + game \<times> ref list" where
  "reveal_loop g queue added =
     (if queue = [] then Inr (g, added)
      else (case reveal_step g queue added of
              Inl err \<Rightarrow> Inl err
            | Inr (g', queue', added') \<Rightarrow> reveal_loop g' queue' added'))"
  by pat_completeness auto

definition reveal_empty_region :: "game \<Rightarrow> ref \<Rightarrow> py_error + game" where
  "reveal_empty_region g btn =
     (case reveal_loop g [btn] [btn] of
        Inl err \<Rightarrow> Inl err
      | Inr (g', added) \<Rightarrow> Inr g')"

subsection \<open>Losing\<close>

definition show_cell :: "ref \<Rightarrow> game \<Rightarrow> game" where
  "show_cell p g =
     (if is_mine (buttons g p)
      then g\<lparr>buttons := (buttons g)(p := (buttons g p)\<lparr>btn_text := Star, state := Disabled\<rparr>)\<rparr>
      else g\<lparr>buttons := (buttons g)(p := (buttons g p)\<lparr>state := Disabled\<rparr>)\<rparr>)"

definition game_lost :: "game \<Rightarrow> ref \<Rightarrow> game" where
  "game_lost g button =
     (let g1 = g\<lparr>buttons := (buttons g)(button := (buttons g button)\<lparr>btn_text := Star\<rparr>),
                 timer_running := False, game_over := True\<rparr>;
          g2 = fold show_cell (interior (height g1) (width g1)) g1
      in g2\<lparr>dialogs := dialogs g2 @ [GameOverBox]\<rparr>)"

subsection \<open>Leaderboards\<close>

text \<open>The loop over the rows of one file in \<open>load_leaderboards\<close>; a \<open>ValueError\<close> of
  \<open>int()\<close> is caught inside the loop and the row is skipped.\<close>

fun read_rows ::
  "(string \<Rightarrow> int option) \<Rightarrow> string list list \<Rightarrow> LeaderboardEntry list \<Rightarrow> LeaderboardEntry list"
where
  "read_rows to_int [] entries = entries"
| "read_rows to_int (row # rest) entries =
     (case row of
        [nm, time_str] \<Rightarrow>
          (case to_int time_str of
             None \<Rightarrow> read_rows to_int rest entries
           | Some time_val \<Rightarrow>
               if time_val > 0
               then read_rows to_int rest
                      (entries @ [\<lparr>name = Some (if nm = [] then ''Anonymous'' else nm),
                                   time = (if time_val > 999 then 999 else time_val)\<rparr>])
               else read_rows to_int rest entries)
      | _ \<Rightarrow> read_rows to_int rest entries)"

text \<open>\<open>entries.sort(key=lambda x: x.time)\<close> is a stable sort, as is \<open>sort_key\<close>. A file
  that does not exist leaves the table in memory as it is.\<close>

definition load_one :: "env \<Rightarrow> difficulty \<Rightarrow> game \<Rightarrow> game" where
  "load_one e d g =
     (case files g d of
        None \<Rightarrow> g
      | Some Unreadable \<Rightarrow> g\<lparr>leaderboards := (leaderboards g)(d := [])\<rparr>
      | Some (Rows rows) \<Rightarrow>
          g\<lparr>leaderboards := (leaderboards g)
               (d := take 5 (sort_key time (read_rows (int_of_str e) rows [])))\<rparr>)"

definition load_leaderboards :: "env \<Rightarrow> game \<Rightarrow> game" where
  "load_leaderboards e g = fold (load_one e) [Beginner, Intermediate, Expert] g"

text \<open>\<open>csv.writer\<close> writes \<open>None\<close> as the empty field and an integer as \<open>str\<close> prints
  it. Opening the file for writing is taken to succeed (the source swallows a failure
  and leaves the file as it was).\<close>

definition entry_row :: "LeaderboardEntry \<Rightarrow> string list" where
  "entry_row en = [case name en of None \<Rightarrow> [] | Some nm \<Rightarrow> nm, py_str (time en)]"

definition save_one :: "difficulty \<Rightarrow> game \<Rightarrow> game" where
  "save_one d g = g\<lparr>files := (files g)(d := Some (Rows (map entry_row (leaderboards g d))))\<rparr>"

definition save_leaderboards :: "game \<Rightarrow> game" where
  "save_leaderboards g = fold save_one [Beginner, Intermediate, Expert] g"

definition show_leaderboards :: "env \<Rightarrow> game \<Rightarrow> game" where
  "show_leaderboards e g =
     (let g1 = load_leaderboards e g in g1\<lparr>dialogs := dialogs g1 @ [LeaderboardWindow]\<rparr>)"

definition prompt_player_name :: "env \<Rightarrow> game \<Rightarrow> difficulty \<Rightarrow> game" where
  "prompt_player_name e g d =
     g\<lparr>dialogs := dialogs g @ [NamePrompt d],
       player_name := (case typed_name e of
                         None \<Rightarrow> player_name g
                       | Some nm \<Rightarrow> Some (if nm = [] then ''Anonymous'' else nm))\<rparr>"

definition update_leaderboard :: "env \<Rightarrow> game \<Rightarrow> difficulty \<Rightarrow> int \<Rightarrow> game" where
  "update_leaderboard e g d time_elapsed =
     (let g1 = load_leaderboards e g;
          entries = leaderboards g1 d
      in if length entries < 5 \<or> time_elapsed < time (last entries)
         then (let g2 = prompt_player_name e g1 d;
                   entries' = sort_key time
                                (entries @ [\<lparr>name = player_name g2, time = time_elapsed\<rparr>]);
                   g3 = g2\<lparr>leaderboards := (leaderboards g2)(d := take 5 entries')\<rparr>
               in show_leaderboards e (save_leaderboards g3))
         else g1)"

subsection \<open>Winning\<close>

definition current_difficulty :: "game \<Rightarrow> difficulty option" where
  "current_difficulty g =
     (let current_settings = (height g, width g, mines g)
      in if current_settings = BEGINNER_OPTIONS then Some Beginner
         else if current_settings = INTERMEDIATE_OPTIONS then Some Intermediate
         else if current_settings = EXPERT_OPTIONS then Some Expert
         else None)"

definition disable_cell :: "ref \<Rightarrow> game \<Rightarrow> game" where
  "disable_cell p g = g\<lparr>buttons := (buttons g)(p := (buttons g p)\<lparr>state := Disabled\<rparr>)\<rparr>"

definition game_won :: "env \<Rightarrow> game \<Rightarrow> game" where
  "game_won e g =
     (let g1 = g\<lparr>timer_running := False, game_over := True\<rparr>;
          g2 = g1\<lparr>dialogs := dialogs g1 @ [WonBox (elapsed e)]\<rparr>;
          g3 = (case current_difficulty g2 of
                  None \<Rightarrow> g2
                | Some d \<Rightarrow> update_leaderboard e g2 d (elapsed e))
      in fold disable_cell (interior (height g3) (width g3)) g3)"

text \<open>The scan of \<open>check_win\<close>; \<open>False\<close> is its early \<open>return False\<close>.\<close>

fun all_clear :: "game \<Rightarrow> ref list \<Rightarrow> bool" where
  "all_clear g [] = True"
| "all_clear g (p # ps) =
     (if (\<not> is_mine (buttons g p) \<and> \<not> is_open (buttons g p))
         \<or> (btn_text (buttons g p) = Flag \<and> \<not> is_mine (buttons g p))
      then False
      else all_clear g ps)"

definition check_win :: "env \<Rightarrow> game \<Rightarrow> bool \<times> game" where
  "check_win e g =
     (if all_clear g (interior (height g) (width g)) then (True, game_won e g)
      else (False, g))"

subsection \<open>A click\<close>

definition first_click :: "env \<Rightarrow> game \<Rightarrow> ref \<Rightarrow> py_error + game" where
  "first_click e g button =
     (if is_first_click g
      then (case place_mines e g (number (buttons g button)) of
              Inl err \<Rightarrow> Inl err
            | Inr g1 \<Rightarrow>
                Inr ((calculate_adjacent_mines g1)
                       \<lparr>is_first_click := False, timer_running := True\<rparr>))
      else Inr g)"

definition open_clicked :: "game \<Rightarrow> ref \<Rightarrow> py_error + game" where
  "open_clicked g button =
     (if adjacent_mines (buttons g button) \<noteq> 0
      then Inr (g\<lparr>buttons := (buttons g)(button := (buttons g button)
                  \<lparr>btn_text := Digit (adjacent_mines (buttons g button)), is_open := True\<rparr>)\<rparr>)
      else reveal_empty_region g button)"

definition handle_click :: "env \<Rightarrow> game \<Rightarrow> ref \<Rightarrow> py_error + game" where
  "handle_click e g button =
     (if game_over g then Inr g
      else (case first_click e g button of
              Inl err \<Rightarrow> Inl err
            | Inr g1 \<Rightarrow>
                if is_mine (buttons g1 button) then Inr (game_lost g1 button)
                else (case open_clicked g1 button of
                        Inl err \<Rightarrow> Inl err
                      | Inr g2 \<Rightarrow> Inr (snd (check_win e (disable_cell button g2))))))"

subsection \<open>The loader in the words of the specification\<close>

text \<open>
  The specification describes \<open>load\<close> by what it keeps: a row survives when it has
  exactly two fields and its second field is an integer greater than zero; the surviving
  entry has its time clamped to 999 and an empty name replaced by \<open>Anonymous\<close>; the
  survivors are sorted by time, ties in file order, and cut to five. These definitions
  follow that wording and are compared with \<open>read_rows\<close> and \<open>load_leaderboards\<close> below.
\<close>

definition row_entry :: "(string \<Rightarrow> int option) \<Rightarrow> string list \<Rightarrow> LeaderboardEntry option" where
  "row_entry to_int row =
     (case row of
        [nm, time_str] \<Rightarrow>
          (case to_int time_str of
             None \<Rightarrow> None
           | Some v \<Rightarrow>
               if v \<le> 0 then None
               else Some \<lparr>name = Some (if nm = [] then ''Anonymous'' else nm), time = min v 999\<rparr>)
      | _ \<Rightarrow> None)"

definition surviving :: "(string \<Rightarrow> int option) \<Rightarrow> string list list \<Rightarrow> LeaderboardEntry list" where
  "surviving to_int rows = List.map_filter (row_entry to_int) rows"

definition load_spec :: "(string \<Rightarrow> int option) \<Rightarrow> string list list \<Rightarrow> LeaderboardEntry list" where
  "load_spec to_int rows = take 5 (sort_key time (surviving to_int rows))"

subsection \<open>Concrete inputs\<close>

text \<open>
  The general theorems below hold for every function in the place of \<open>int()\<close>. To run the
  model on concrete files, \<open>ascii_int\<close> reads the plain decimal numerals that \<open>int()\<close>
  accepts: an optional minus sign and ASCII digits.
\<close>

definition digit_val :: "char \<Rightarrow> nat option" where
  "digit_val c =
     map_of [(CHR ''0'', 0), (CHR ''1'', 1), (CHR ''2'', 2), (CHR ''3'', 3), (CHR ''4'', 4),
             (CHR ''5'', 5), (CHR ''6'', 6), (CHR ''7'', 7), (CHR ''8'', 8), (CHR ''9'', 9)] c"

fun digits_val :: "string \<Rightarrow> nat \<Rightarrow> nat option" where
  "digits_val [] acc = Some acc"
| "digits_val (c # cs) acc =
     (case digit_val c of None \<Rightarrow> None | Some d \<Rightarrow> digits_val cs (10 * acc + d))"

definition ascii_int :: "string \<Rightarrow> int option" where
  "ascii_int s =
     (case s of
        [] \<Rightarrow> None
      | c # cs \<Rightarrow>
          if c = CHR ''-''
          then (if cs = [] then None else map_option (\<lambda>n. - int n) (digits_val cs 0))
          else map_option int (digits_val s 0))"

text \<open>A shuffle that reverses, a win after 1500 seconds, and a player who types a name.\<close>

definition env0 :: env where
  "env0 = \<lparr>shuffle = rev, int_of_str = ascii_int, elapsed = 1500, typed_name = Some ''Bob''\<rparr>"

definition sample_rows :: "string list list" where
  "sample_rows = [[''bob''], [''bob'', ''-5''], [''bob'', ''abc''], [''amy'', ''12''],
                  [], [''zed'', ''5000''], ['''', ''12''], [''a'', ''b'', ''c'']]"

text \<open>A custom 5 x 5 game with 3 mines, over a beginner file holding \<open>sample_rows\<close>.\<close>

definition sample_game :: game where
  "sample_game =
     \<lparr>height = 5, width = 5, mines = 3, flags_left = 3, game_over = False,
      is_first_click = False, timer_running = True, buttons = create_game_grid,
      player_name = None, leaderboards = (\<lambda>_. []),
      files = (\<lambda>_. None)(Beginner := Some (Rows sample_rows)), dialogs = []\<rparr>"

text \<open>The expert preset chosen from the menu of a freshly started program with no files.\<close>

definition expert_game :: game where
  "expert_game = set_difficulty EXPERT_OPTIONS (init_game (\<lambda>_. None))"

text \<open>A freshly started program (the beginner preset) over a beginner file that holds
  five entries.\<close>

definition full_rows :: "string list list" where
  "full_rows = [[''a'', ''10''], [''b'', ''20''], [''c'', ''30''], [''d'', ''40''], [''e'', ''50'']]"

definition full_game :: game where
  "full_game = init_game ((\<lambda>_. None)(Beginner := Some (Rows full_rows)))"

subsection \<open>Measuring the flood fill\<close>

text \<open>The closed interior cells that are not on the work list, and the quantity that
  every iteration of the flood fill decreases.\<close>

definition pending :: "game \<Rightarrow> ref list \<Rightarrow> ref set" where
  "pending g queue =
     {p \<in> set (interior (height g) (width g)). \<not> is_open (buttons g p) \<and> p \<notin> set queue}"

definition work_left :: "game \<times> ref list \<times> ref list \<Rightarrow> nat" where
  "work_left s = (case s of (g, queue, added) \<Rightarrow> 2 * card (pending g queue) + length queue)"

subsection \<open>A small board\<close>

text \<open>One row of four cells with one mine, chosen as a custom game in a freshly started
  program. With the reversing shuffle of \<open>env0\<close> a first click on cell 1 puts the mine on
  cell 4.\<close>

definition tiny_game :: game where
  "tiny_game = set_difficulty (1, 4, 1) (init_game (\<lambda>_. None))"

text \<open>One row of two cells near the end of a game: cell 1 is open, cell 2 is a flagged
  mine.\<close>

definition won_board :: game where
  "won_board =
     \<lparr>height = 1, width = 2, mines = 1, flags_left = 0, game_over = False,
      is_first_click = False, timer_running = True,
      buttons = create_game_grid
        ((1, 1) := new_button\<lparr>number := 1, is_open := True, state := Disabled\<rparr>,
         (1, 2) := new_button\<lparr>number := 2, is_mine := True, state := Disabled,
                               btn_text := Flag\<rparr>),
      player_name = None, leaderboards = (\<lambda>_. []), files = (\<lambda>_. None), dialogs = []\<rparr>"

subsection \<open>The eight neighbours of a cell\<close>

definition neighbours :: "ref \<Rightarrow> ref list" where
  "neighbours p =
     (case p of (i, j) \<Rightarrow>
        [(i - 1, j - 1), (i - 1, j), (i - 1, j + 1), (i, j - 1), (i, j + 1),
         (i + 1, j - 1), (i + 1, j), (i + 1, j + 1)])"

subsection \<open>Flag bookkeeping\<close>

text \<open>The interior cells that carry a flag.\<close>

definition flagged :: "game \<Rightarrow> ref set" where
  "flagged g = {q \<in> set (interior (height g) (width g)). btn_text (buttons g q) = Flag}"

section \<open>The board\<close>

subsection \<open>Interior cells and their numbers\<close>

lemma set_interior:
  "set (interior h w) = {p. 1 \<le> fst p \<and> fst p \<le> h \<and> 1 \<le> snd p \<and> snd p \<le> w}"
  by (auto simp: interior_def)

lemma length_interior: "length (interior h w) = nat h * nat w"
  by (simp add: interior_def length_concat comp_def sum_list_triv)

lemma interior_product: "interior h w = List.product [1..h] [1..w]"
  by (simp add: interior_def List.product_concat_map)

lemma distinct_interior: "distinct (interior h w)"
  by (simp add: interior_product distinct_product)

lemma number_cells_other:
  "p \<notin> set ps \<Longrightarrow> number_cells ps c bs p = bs p"
  by (induction ps arbitrary: c bs) auto

lemma number_cells_frame:
  "is_mine (number_cells ps c bs p) = is_mine (bs p)"
  "is_open (number_cells ps c bs p) = is_open (bs p)"
  "btn_text (number_cells ps c bs p) = btn_text (bs p)"
  "state (number_cells ps c bs p) = state (bs p)"
  "adjacent_mines (number_cells ps c bs p) = adjacent_mines (bs p)"
  by (induction ps arbitrary: c bs) auto

lemma number_cells_numbers:
  "distinct ps \<Longrightarrow>
     map (\<lambda>p. number (number_cells ps c bs p)) ps = map (\<lambda>k. c + int k) [0..<length ps]"
proof (induction ps arbitrary: c bs)
  case Nil
  show ?case by simp
next
  case (Cons p ps)
  have hd: "number (number_cells ps (c + 1) (bs(p := (bs p)\<lparr>number := c\<rparr>)) p) = c"
    using Cons.prems by (simp add: number_cells_other)
  have tl: "map (\<lambda>q. number (number_cells ps (c + 1) (bs(p := (bs p)\<lparr>number := c\<rparr>)) q)) ps
              = map (\<lambda>k. c + 1 + int k) [0..<length ps]"
    using Cons.IH [of "c + 1"] Cons.prems by simp
  have "map (\<lambda>k. c + int k) [0..<length (p # ps)]
          = c # map (\<lambda>k. c + 1 + int k) [0..<length ps]"
    by (simp add: upt_conv_Cons map_Suc_upt [symmetric] del: upt_Suc)
  with hd tl show ?case by simp
qed

lemma image_succ_int: "(\<lambda>k. 1 + int k) ` {0..<n} = {1..int n}"
proof (intro set_eqI iffI)
  fix x assume "x \<in> (\<lambda>k. 1 + int k) ` {0..<n}"
  then show "x \<in> {1..int n}" by auto
next
  fix x assume "x \<in> {1..int n}"
  then have "x = 1 + int (nat (x - 1))" and "nat (x - 1) \<in> {0..<n}" by auto
  then show "x \<in> (\<lambda>k. 1 + int k) ` {0..<n}" by (rule image_eqI)
qed

lemma fresh_numbers:
  assumes "0 \<le> h" "0 \<le> w"
  shows "distinct (map (\<lambda>p. number (number_cells (interior h w) 1 bs p)) (interior h w))"
    and "set (map (\<lambda>p. number (number_cells (interior h w) 1 bs p)) (interior h w)) = {1..h * w}"
proof -
  let ?ns = "map (\<lambda>p. number (number_cells (interior h w) 1 bs p)) (interior h w)"
  have eq: "?ns = map (\<lambda>k. 1 + int k) [0..<nat h * nat w]"
    using number_cells_numbers [OF distinct_interior, of h w 1 bs]
    by (simp add: length_interior)
  show "distinct ?ns" unfolding eq by (simp add: distinct_map inj_on_def)
  have "int (nat h * nat w) = h * w" using assms by simp
  then show "set ?ns = {1..h * w}"
    unfolding eq using image_succ_int [of "nat h * nat w"] by simp
qed

lemma new_game_fields:
  "height (set_difficulty (h, w, m) g0) = h"
  "width (set_difficulty (h, w, m) g0) = w"
  "mines (set_difficulty (h, w, m) g0) = m"
  "flags_left (set_difficulty (h, w, m) g0) = m"
  "buttons (set_difficulty (h, w, m) g0) = number_cells (interior h w) 1 create_game_grid"
  by (simp_all add: set_difficulty_def reset_game_def)

lemma new_game_no_mines:
  "\<not> is_mine (buttons (set_difficulty (h, w, m) g0) p)"
  by (simp add: new_game_fields number_cells_frame create_game_grid_def new_button_def)

lemma init_game_is_beginner: "set_difficulty BEGINNER_OPTIONS (init_game fs) = init_game fs"
  by (simp add: set_difficulty_def reset_game_def init_game_def BEGINNER_OPTIONS_def)

lemma tiny_game_fields:
  "height tiny_game = 1" "width tiny_game = 4" "mines tiny_game = 1"
  "flags_left tiny_game = 1" "game_over tiny_game = False"
  by (simp_all add: tiny_game_def set_difficulty_def reset_game_def init_game_def)

subsection \<open>Mine placement\<close>

lemma get_mines_places_ok:
  assumes ex: "1 \<le> ex" "ex \<le> width g * height g"
      and m: "0 \<le> mines g" "mines g < width g * height g"
      and perm: "\<forall>xs. mset (shuffle e xs) = mset xs"
  shows "\<exists>idx. get_mines_places e g ex = Inr idx \<and> distinct idx
               \<and> length idx = nat (mines g)
               \<and> set idx \<subseteq> {1..width g * height g} - {ex}"
proof -
  let ?all = "[1..width g * height g]"
  let ?indexes = "remove1 ex ?all"
  let ?shuffled = "shuffle e ?indexes"
  have mem: "ex \<in> set ?all" using ex by simp
  have ms: "mset ?shuffled = mset ?indexes" using perm by blast
  have d: "distinct ?shuffled"
    using mset_eq_imp_distinct_iff [OF ms] by simp
  have s: "set ?shuffled = {1..width g * height g} - {ex}"
    using mset_eq_setD [OF ms] by (simp add: set_remove1_eq)
  have "length ?shuffled = length ?indexes" using mset_eq_length [OF ms] .
  also have "\<dots> = nat (width g * height g) - 1"
    using mem by (simp add: length_remove1)
  finally have l: "length ?shuffled = nat (width g * height g) - 1" .
  have r: "get_mines_places e g ex = Inr (take (nat (mines g)) ?shuffled)"
    using mem m by (simp add: get_mines_places_def py_remove_def py_prefix_def)
  have "length (take (nat (mines g)) ?shuffled) = nat (mines g)"
    using l m by simp
  moreover have "set (take (nat (mines g)) ?shuffled) \<subseteq> {1..width g * height g} - {ex}"
    using set_take_subset [of "nat (mines g)" ?shuffled] s by simp
  ultimately show ?thesis using r d by simp
qed

lemma mark_mine_number [simp]:
  "number (buttons (mark_mine idx q g) p) = number (buttons g p)"
  by (simp add: mark_mine_def)

lemma fold_mark_mine_buttons:
  "buttons (fold (mark_mine idx) ps g) p =
     (if p \<in> set ps \<and> number (buttons g p) \<in> set idx
      then (buttons g p)\<lparr>is_mine := True\<rparr> else buttons g p)"
proof (induction ps arbitrary: g)
  case Nil
  show ?case by simp
next
  case (Cons q ps)
  show ?case by (simp add: Cons.IH) (auto simp: mark_mine_def)
qed

lemma fold_mark_mine_frame [simp]:
  "height (fold (mark_mine idx) ps g) = height g"
  "width (fold (mark_mine idx) ps g) = width g"
  "mines (fold (mark_mine idx) ps g) = mines g"
  "flags_left (fold (mark_mine idx) ps g) = flags_left g"
  by (induction ps arbitrary: g) (simp_all add: mark_mine_def)

text \<open>
  Claim C1. Take a new game of height \<open>h \<ge> 1\<close>, width \<open>w \<ge> 1\<close> and \<open>m\<close> mines with
  \<open>0 \<le> m < h * w\<close>, an excluded index \<open>ex\<close> in \<open>1..h * w\<close>, and any shuffle that permutes
  its argument. Then \<open>place_mines\<close> returns without an error; the chosen indices are
  \<open>m\<close> distinct numbers other than \<open>ex\<close>; a button is a mine exactly when it is an interior
  cell whose number was chosen (so no border button is a mine); the interior mine cells
  are \<open>m\<close> distinct cells; and the one interior cell numbered \<open>ex\<close> is not a mine.
\<close>

theorem place_mines_exact_count:
  assumes dims: "1 \<le> h" "1 \<le> w"
      and m: "0 \<le> m" "m < h * w"
      and ex: "1 \<le> ex" "ex \<le> h * w"
      and perm: "\<forall>xs. mset (shuffle e xs) = mset xs"
  shows "\<exists>g' idx. place_mines e (set_difficulty (h, w, m) g0) ex = Inr g'
           \<and> get_mines_places e (set_difficulty (h, w, m) g0) ex = Inr idx
           \<and> distinct idx \<and> length idx = nat m \<and> ex \<notin> set idx
           \<and> (\<forall>p. is_mine (buttons g' p)
                  \<longleftrightarrow> p \<in> set (interior h w) \<and> number (buttons g' p) \<in> set idx)
           \<and> distinct (filter (\<lambda>p. is_mine (buttons g' p)) (interior h w))
           \<and> length (filter (\<lambda>p. is_mine (buttons g' p)) (interior h w)) = nat m
           \<and> (\<exists>!p. p \<in> set (interior h w) \<and> number (buttons g' p) = ex)
           \<and> (\<forall>p \<in> set (interior h w). number (buttons g' p) = ex \<longrightarrow> \<not> is_mine (buttons g' p))"
proof -
  let ?g = "set_difficulty (h, w, m) g0"
  let ?num = "\<lambda>p. number (buttons ?g p)"
  have wh: "width ?g * height ?g = h * w" by (simp add: new_game_fields mult.commute)
  have ex': "ex \<le> width ?g * height ?g" using ex wh by simp
  have m': "0 \<le> mines ?g" "mines ?g < width ?g * height ?g"
    using m wh by (simp_all add: new_game_fields(3))
  from get_mines_places_ok [OF ex(1) ex' m' perm] obtain idx where
    gm: "get_mines_places e ?g ex = Inr idx" and di: "distinct idx"
    and li: "length idx = nat m" and si: "set idx \<subseteq> {1..h * w} - {ex}"
    unfolding wh new_game_fields(3) by blast
  define g' where "g' = fold (mark_mine idx) (interior h w) ?g"
  have pm: "place_mines e ?g ex = Inr g'"
    by (simp add: place_mines_def gm g'_def new_game_fields)
  have bt: "\<And>p. buttons g' p =
              (if p \<in> set (interior h w) \<and> ?num p \<in> set idx
               then (buttons ?g p)\<lparr>is_mine := True\<rparr> else buttons ?g p)"
    by (simp add: g'_def fold_mark_mine_buttons)
  have num': "\<And>p. number (buttons g' p) = ?num p" by (simp add: bt)
  have mine: "\<And>p. is_mine (buttons g' p) \<longleftrightarrow> p \<in> set (interior h w) \<and> ?num p \<in> set idx"
    by (simp add: bt new_game_no_mines)
  have dn: "distinct (map ?num (interior h w))"
    and sn: "set (map ?num (interior h w)) = {1..h * w}"
    using fresh_numbers [of h w create_game_grid] dims by (simp_all add: new_game_fields)
  have flt: "filter (\<lambda>p. is_mine (buttons g' p)) (interior h w)
               = filter (\<lambda>p. ?num p \<in> set idx) (interior h w)"
    by (rule filter_cong) (simp_all add: mine)
  have "length (filter (\<lambda>p. ?num p \<in> set idx) (interior h w))
          = length (filter (\<lambda>n. n \<in> set idx) (map ?num (interior h w)))"
    by (simp add: filter_map comp_def)
  also have "\<dots> = card ({n. n \<in> set idx} \<inter> set (map ?num (interior h w)))"
    using dn by (rule distinct_length_filter)
  also have "{n. n \<in> set idx} \<inter> set (map ?num (interior h w)) = set idx"
    using si unfolding sn by auto
  also have "card (set idx) = nat m" using di li by (simp add: distinct_card)
  finally have cnt: "length (filter (\<lambda>p. is_mine (buttons g' p)) (interior h w)) = nat m"
    by (simp add: flt)
  have exi: "ex \<notin> set idx" using si by auto
  have "ex \<in> set (map ?num (interior h w))" unfolding sn using ex by simp
  then obtain p0 where p0: "p0 \<in> set (interior h w)" "?num p0 = ex" by auto
  have inj: "inj_on ?num (set (interior h w))"
    using dn by (simp add: distinct_map)
  have uniq: "\<exists>!p. p \<in> set (interior h w) \<and> number (buttons g' p) = ex"
  proof (rule ex1I [of _ p0])
    show "p0 \<in> set (interior h w) \<and> number (buttons g' p0) = ex"
      using p0 by (simp add: num')
  next
    fix p assume "p \<in> set (interior h w) \<and> number (buttons g' p) = ex"
    then show "p = p0" using p0 inj by (simp add: num' inj_on_def)
  qed
  have safe: "\<forall>p \<in> set (interior h w). number (buttons g' p) = ex \<longrightarrow> \<not> is_mine (buttons g' p)"
    using exi by (auto simp: mine num')
  have dm: "distinct (filter (\<lambda>p. is_mine (buttons g' p)) (interior h w))"
    by (simp add: distinct_interior)
  have mine': "\<forall>p. is_mine (buttons g' p)
                  \<longleftrightarrow> p \<in> set (interior h w) \<and> number (buttons g' p) \<in> set idx"
    by (simp add: mine num')
  from pm gm di li exi mine' dm cnt uniq safe show ?thesis by blast
qed

theorem place_mines_exact_count_witness:
  "(1::int) \<le> 1 \<and> (1::int) \<le> 4 \<and> (0::int) \<le> 1 \<and> (1::int) < 1 * 4 \<and> (1::int) \<le> 1 * 4
   \<and> (\<forall>xs. mset (shuffle env0 xs) = mset xs)
   \<and> (\<exists>g'. place_mines env0 tiny_game 1 = Inr g'
          \<and> length (filter (\<lambda>p. is_mine (buttons g' p)) (interior 1 4)) = 1
          \<and> \<not> is_mine (buttons g' (1, 1)))"
proof -
  have perm: "\<forall>xs. mset (shuffle env0 xs) = mset xs" by (simp add: env0_def)
  have i: "(1, 1) \<in> set (interior 1 4)" by (simp add: set_interior)
  have n0: "number (buttons tiny_game (1, 1)) = 1" by code_simp
  have n: "\<And>g'. place_mines env0 tiny_game 1 = Inr g' \<Longrightarrow> number (buttons g' (1, 1)) = 1"
    using n0 by (auto simp: place_mines_def fold_mark_mine_buttons split: sum.splits)
  from place_mines_exact_count [of 1 4 1 1 env0 "init_game (\<lambda>_. None)"] perm
  obtain g' where g': "place_mines env0 tiny_game 1 = Inr g'"
    "length (filter (\<lambda>p. is_mine (buttons g' p)) (interior 1 4)) = nat 1"
    "\<forall>p \<in> set (interior 1 4). number (buttons g' p) = 1 \<longrightarrow> \<not> is_mine (buttons g' p)"
    unfolding tiny_game_def by auto
  from g'(3) i n [OF g'(1)] have "\<not> is_mine (buttons g' (1, 1))" by blast
  with g'(1,2) perm show ?thesis by simp
qed

subsection \<open>Adjacency\<close>

lemma count_fold:
  "fold (\<lambda>d n. if P d then n + 1 else n) ds (n0 :: int) = n0 + int (length (filter P ds))"
  by (induction ds arbitrary: n0) auto

lemma count_around_filter:
  "count_around g p =
     int (length (filter (\<lambda>d. is_mine (buttons g (fst p + fst d, snd p + snd d))) offsets))"
  by (simp add: count_around_def count_fold)

lemma count_around_neighbours:
  assumes "\<not> is_mine (buttons g p)"
  shows "count_around g p = int (length (filter (\<lambda>q. is_mine (buttons g q)) (neighbours p)))"
proof -
  obtain i j where p: "p = (i, j)" by (cases p)
  from assms show ?thesis
    by (simp add: count_around_filter offsets_def neighbours_def p diff_conv_add_uminus
          del: add_uminus_conv_diff)
qed

lemma set_adjacent_frame [simp]:
  "is_mine (buttons (set_adjacent q g) p) = is_mine (buttons g p)"
  "height (set_adjacent q g) = height g"
  "width (set_adjacent q g) = width g"
  by (simp_all add: set_adjacent_def)

lemma count_around_set_adjacent [simp]:
  "count_around (set_adjacent q g) p = count_around g p"
  by (simp add: count_around_def)

lemma fold_set_adjacent_buttons:
  "buttons (fold set_adjacent ps g) p =
     (if p \<in> set ps
      then (buttons g p)\<lparr>adjacent_mines := (if is_mine (buttons g p) then 0 else count_around g p)\<rparr>
      else buttons g p)"
proof (induction ps arbitrary: g)
  case Nil
  show ?case by simp
next
  case (Cons q ps)
  show ?case by (simp add: Cons.IH) (simp add: set_adjacent_def)
qed

text \<open>
  Claim C5. After \<open>calculate_adjacent_mines\<close>, the count stored in an interior cell that
  is not a mine is the number of mines among its eight neighbours in the grid, a value
  from 0 to 8, and no button has changed its \<open>is_mine\<close>. With mines placed by
  \<open>place_mines\<close> no border button is a mine (claim C1), and then the count is the number
  of interior neighbours that are mines: the sentinel ring adds nothing.
\<close>

theorem adjacency_counts_neighbouring_mines:
  assumes "1 \<le> i" "i \<le> height g" "1 \<le> j" "j \<le> width g" "\<not> is_mine (buttons g (i, j))"
  shows "adjacent_mines (buttons (calculate_adjacent_mines g) (i, j))
           = int (length (filter (\<lambda>q. is_mine (buttons g q)) (neighbours (i, j))))
       \<and> 0 \<le> adjacent_mines (buttons (calculate_adjacent_mines g) (i, j))
       \<and> adjacent_mines (buttons (calculate_adjacent_mines g) (i, j)) \<le> 8
       \<and> (\<forall>q. is_mine (buttons (calculate_adjacent_mines g) q) = is_mine (buttons g q))
       \<and> ((\<forall>q. q \<notin> set (interior (height g) (width g)) \<longrightarrow> \<not> is_mine (buttons g q)) \<longrightarrow>
            adjacent_mines (buttons (calculate_adjacent_mines g) (i, j))
              = int (length (filter (\<lambda>q. q \<in> set (interior (height g) (width g))
                                          \<and> is_mine (buttons g q)) (neighbours (i, j)))))"
proof -
  have mem: "(i, j) \<in> set (interior (height g) (width g))"
    using assms by (simp add: set_interior)
  have a: "adjacent_mines (buttons (calculate_adjacent_mines g) (i, j))
             = int (length (filter (\<lambda>q. is_mine (buttons g q)) (neighbours (i, j))))"
    using mem assms(5)
    by (simp add: calculate_adjacent_mines_def fold_set_adjacent_buttons count_around_neighbours)
  have "length (filter (\<lambda>q. is_mine (buttons g q)) (neighbours (i, j))) \<le> length (neighbours (i, j))"
    by (rule length_filter_le)
  also have "length (neighbours (i, j)) = 8" by (simp add: neighbours_def)
  finally have b: "adjacent_mines (buttons (calculate_adjacent_mines g) (i, j)) \<le> 8"
    using a by simp
  have c: "\<forall>q. is_mine (buttons (calculate_adjacent_mines g) q) = is_mine (buttons g q)"
    by (simp add: calculate_adjacent_mines_def fold_set_adjacent_buttons)
  have d: "(\<forall>q. q \<notin> set (interior (height g) (width g)) \<longrightarrow> \<not> is_mine (buttons g q)) \<longrightarrow>
            adjacent_mines (buttons (calculate_adjacent_mines g) (i, j))
              = int (length (filter (\<lambda>q. q \<in> set (interior (height g) (width g))
                                          \<and> is_mine (buttons g q)) (neighbours (i, j))))"
  proof
    assume border: "\<forall>q. q \<notin> set (interior (height g) (width g)) \<longrightarrow> \<not> is_mine (buttons g q)"
    have "filter (\<lambda>q. is_mine (buttons g q)) (neighbours (i, j))
            = filter (\<lambda>q. q \<in> set (interior (height g) (width g)) \<and> is_mine (buttons g q))
                (neighbours (i, j))"
      by (rule filter_cong) (use border in auto)
    with a show "adjacent_mines (buttons (calculate_adjacent_mines g) (i, j))
              = int (length (filter (\<lambda>q. q \<in> set (interior (height g) (width g))
                                          \<and> is_mine (buttons g q)) (neighbours (i, j))))"
      by simp
  qed
  from a b c d show ?thesis by simp
qed

theorem adjacency_counts_neighbouring_mines_witness:
  "(1::int) \<le> 1 \<and> 1 \<le> height won_board \<and> 1 \<le> width won_board
   \<and> \<not> is_mine (buttons won_board (1, 1))
   \<and> adjacent_mines (buttons (calculate_adjacent_mines won_board) (1, 1)) = 1
   \<and> length (filter (\<lambda>q. q \<in> set (interior (height won_board) (width won_board))
                          \<and> is_mine (buttons won_board q)) (neighbours (1, 1))) = 1"
proof -
  have h: "1 \<le> height won_board" "1 \<le> width won_board" "\<not> is_mine (buttons won_board (1, 1))"
    by (simp_all add: won_board_def create_game_grid_def new_button_def)
  have border: "\<forall>q. q \<notin> set (interior (height won_board) (width won_board))
                  \<longrightarrow> \<not> is_mine (buttons won_board q)"
    by (auto simp: won_board_def set_interior create_game_grid_def new_button_def)
  have "int (length (filter (\<lambda>q. is_mine (buttons won_board q)) (neighbours (1, 1)))) = 1"
    by (simp add: neighbours_def won_board_def create_game_grid_def new_button_def)
  with adjacency_counts_neighbouring_mines [of 1 won_board 1] h border
  show ?thesis by auto
qed

section \<open>Flood-fill reveal\<close>

subsection \<open>Termination\<close>

text \<open>
  An iteration pops one reference, marks its button open and appends only closed interior
  cells that are not on the work list. Twice the number of closed interior cells off the
  work list, plus the length of the work list, therefore drops with every iteration.
\<close>

lemma enqueue_neighbours_appends:
  "enqueue_neighbours g cur ds queue added = Inr (queue', added') \<Longrightarrow>
     \<exists>new. queue' = queue @ new \<and> added' = added @ new \<and> distinct new
           \<and> set new \<inter> set queue = {}
           \<and> (\<forall>p \<in> set new. p \<in> set (interior (height g) (width g))
                               \<and> \<not> is_open (buttons g p))"
proof (induction ds arbitrary: queue added)
  case Nil
  then show ?case by simp
next
  case (Cons d ds)
  from Cons.prems obtain nb where nb: "btn_at g (fst cur + fst d) (snd cur + snd d) = Inr nb"
    by (cases "btn_at g (fst cur + fst d) (snd cur + snd d)") auto
  let ?ok = "\<not> is_open (buttons g nb) \<and> 1 \<le> fst nb \<and> fst nb \<le> height g
             \<and> 1 \<le> snd nb \<and> snd nb \<le> width g \<and> nb \<notin> set queue"
  show ?case
  proof (cases ?ok)
    case True
    with Cons.prems nb
    have "enqueue_neighbours g cur ds (queue @ [nb]) (added @ [nb]) = Inr (queue', added')"
      by simp
    from Cons.IH [OF this] obtain new where new:
      "queue' = (queue @ [nb]) @ new" "added' = (added @ [nb]) @ new" "distinct new"
      "set new \<inter> set (queue @ [nb]) = {}"
      "\<forall>p \<in> set new. p \<in> set (interior (height g) (width g)) \<and> \<not> is_open (buttons g p)"
      by blast
    have "nb \<in> set (interior (height g) (width g))" using True by (simp add: set_interior)
    with new True show ?thesis
      by (intro exI [of _ "nb # new"]) auto
  next
    case False
    with Cons.prems nb
    have "enqueue_neighbours g cur ds queue added = Inr (queue', added')"
      by (simp split: if_splits)
    from Cons.IH [OF this] show ?thesis .
  qed
qed

lemma reveal_cell_open [simp]: "is_open (reveal_cell b)"
  by (simp add: reveal_cell_def)

lemma reveal_step_shape:
  assumes "reveal_step g queue added = Inr (g', queue', added')"
  shows "g' = g\<lparr>buttons := (buttons g)(last queue := reveal_cell (buttons g (last queue)))\<rparr>
       \<and> (\<exists>new. queue' = butlast queue @ new \<and> added' = added @ new \<and> distinct new
              \<and> set new \<inter> set (butlast queue) = {}
              \<and> (\<forall>p \<in> set new. p \<in> set (interior (height g) (width g))
                                  \<and> \<not> is_open (buttons g' p)))"
proof -
  let ?g1 = "g\<lparr>buttons := (buttons g)(last queue := reveal_cell (buttons g (last queue)))\<rparr>"
  show ?thesis
  proof (cases "adjacent_mines (buttons ?g1 (last queue)) = 0")
    case True
    with assms have
      "enqueue_neighbours ?g1 (last queue) offsets (butlast queue) added = Inr (queue', added')"
      and g': "g' = ?g1"
      by (auto simp: reveal_step_def Let_def split: sum.splits)
    from enqueue_neighbours_appends [OF this(1)] g' show ?thesis by simp
  next
    case False
    with assms have "g' = ?g1" "queue' = butlast queue" "added' = added"
      by (auto simp: reveal_step_def Let_def)
    then show ?thesis by simp
  qed
qed

lemma reveal_step_decreases:
  assumes ne: "queue \<noteq> []"
      and st: "reveal_step g queue added = Inr (g', queue', added')"
  shows "work_left (g', queue', added') < work_left (g, queue, added)"
proof -
  from reveal_step_shape [OF st] obtain new where
    g': "g' = g\<lparr>buttons := (buttons g)(last queue := reveal_cell (buttons g (last queue)))\<rparr>"
    and q': "queue' = butlast queue @ new" and dn: "distinct new"
    and disj: "set new \<inter> set (butlast queue) = {}"
    and closed: "\<forall>p \<in> set new. p \<in> set (interior (height g) (width g))
                                  \<and> \<not> is_open (buttons g' p)"
    by blast
  have sq: "set queue = insert (last queue) (set (butlast queue))"
    using ne by (metis append_butlast_last_id list.simps(15) rotate1.simps(2) set_rotate1)
  have op: "\<And>p. \<not> is_open (buttons g' p) \<Longrightarrow> p \<noteq> last queue \<and> \<not> is_open (buttons g p)"
    by (auto simp: g' split: if_splits)
  have hw: "height g' = height g" "width g' = width g" by (simp_all add: g')
  have sub1: "pending g' queue' \<subseteq> pending g queue"
    using op by (auto simp: pending_def hw q' sq)
  have sub2: "set new \<subseteq> pending g queue"
    using closed disj op by (auto simp: pending_def sq)
  have dj: "pending g' queue' \<inter> set new = {}"
    by (auto simp: pending_def q')
  have fin: "finite (pending g queue)" by (simp add: pending_def)
  have "card (pending g' queue') + length new = card (pending g' queue' \<union> set new)"
    using dj dn fin sub1
    by (metis List.finite_set card_Un_disjoint distinct_card finite_subset)
  also have "\<dots> \<le> card (pending g queue)"
    using sub1 sub2 fin by (simp add: card_mono)
  finally have c: "card (pending g' queue') + length new \<le> card (pending g queue)" .
  have l: "length queue' + 1 = length queue + length new"
    using ne by (simp add: q')
  from c l show ?thesis by (simp add: work_left_def)
qed

termination reveal_loop
proof (relation "measure (\<lambda>(g, queue, added). work_left (g, queue, added))")
  show "wf (measure (\<lambda>(g, queue, added). work_left (g, queue, added)))" by simp
next
  fix g queue added and x2 :: "game \<times> ref list \<times> ref list" and g' y queue' added'
  assume "queue \<noteq> []" "reveal_step g queue added = Inr x2" "(g', y) = x2" "(queue', added') = y"
  then have "reveal_step g queue added = Inr (g', queue', added')" by simp
  from reveal_step_decreases [OF \<open>queue \<noteq> []\<close> this]
  show "((g', queue', added'), g, queue, added)
          \<in> measure (\<lambda>(g, queue, added). work_left (g, queue, added))"
    by simp
qed

declare reveal_loop.simps [simp del]

subsection \<open>Each cell is put on the work list once\<close>

lemma set_butlast_last: "queue \<noteq> [] \<Longrightarrow> set queue = insert (last queue) (set (butlast queue))"
  by (metis append_butlast_last_id list.simps(15) rotate1.simps(2) set_rotate1)

lemma reveal_step_invariant:
  assumes st: "reveal_step g queue added = Inr (g', queue', added')"
      and ne: "queue \<noteq> []"
      and da: "distinct added" and dq: "distinct queue" and qa: "set queue \<subseteq> set added"
      and op: "\<forall>p \<in> set added - set queue. is_open (buttons g p)"
  shows "distinct added' \<and> distinct queue' \<and> set queue' \<subseteq> set added'
       \<and> (\<forall>p \<in> set added' - set queue'. is_open (buttons g' p))
       \<and> set added' \<subseteq> set added \<union> set (interior (height g) (width g))
       \<and> set queue' \<subseteq> set (butlast queue) \<union> set (interior (height g) (width g))
       \<and> height g' = height g \<and> width g' = width g"
proof -
  from reveal_step_shape [OF st] obtain new where
    g': "g' = g\<lparr>buttons := (buttons g)(last queue := reveal_cell (buttons g (last queue)))\<rparr>"
    and q': "queue' = butlast queue @ new" and a': "added' = added @ new"
    and dn: "distinct new" and disj: "set new \<inter> set (butlast queue) = {}"
    and closed: "\<forall>p \<in> set new. p \<in> set (interior (height g) (width g))
                                  \<and> \<not> is_open (buttons g' p)"
    by blast
  note sq = set_butlast_last [OF ne]
  have lastopen: "is_open (buttons g' (last queue))" by (simp add: g')
  have mono: "\<And>p. is_open (buttons g p) \<Longrightarrow> is_open (buttons g' p)" by (simp add: g')
  have new_fresh: "set new \<inter> set added = {}"
  proof (rule ccontr)
    assume "set new \<inter> set added \<noteq> {}"
    then obtain p where p: "p \<in> set new" "p \<in> set added" by blast
    from p(1) closed have cl: "\<not> is_open (buttons g' p)" by blast
    from p(1) disj have nb: "p \<notin> set (butlast queue)" by blast
    from cl lastopen have "p \<noteq> last queue" by auto
    with nb sq have "p \<notin> set queue" by simp
    with p(2) op have "is_open (buttons g p)" by blast
    with mono cl show False by blast
  qed
  have 1: "distinct added'" using da dn new_fresh by (auto simp: a')
  have 2: "distinct queue'" using dq dn disj by (auto simp: q' distinct_butlast)
  have 3: "set queue' \<subseteq> set added'" using qa sq by (auto simp: q' a')
  have 4: "\<forall>p \<in> set added' - set queue'. is_open (buttons g' p)"
  proof
    fix p assume "p \<in> set added' - set queue'"
    then have pa: "p \<in> set added" and pb: "p \<notin> set (butlast queue)"
      by (auto simp: q' a')
    show "is_open (buttons g' p)"
    proof (cases "p = last queue")
      case True
      then show ?thesis using lastopen by simp
    next
      case False
      with pb sq have "p \<notin> set queue" by simp
      with pa op mono show ?thesis by blast
    qed
  qed
  have 5: "set added' \<subseteq> set added \<union> set (interior (height g) (width g))"
    using closed by (auto simp: a')
  have 6: "set queue' \<subseteq> set (butlast queue) \<union> set (interior (height g) (width g))"
    using closed by (auto simp: q')
  have 7: "height g' = height g \<and> width g' = width g" by (simp add: g')
  from 1 2 3 4 5 6 7 show ?thesis by blast
qed

lemma reveal_loop_added:
  assumes "reveal_loop g queue added = Inr (g', added')"
      and "distinct added" and "distinct queue" and "set queue \<subseteq> set added"
      and "\<forall>p \<in> set added - set queue. is_open (buttons g p)"
  shows "distinct added' \<and> set added' \<subseteq> set added \<union> set (interior (height g) (width g))"
  using assms
proof (induction "work_left (g, queue, added)" arbitrary: g queue added rule: less_induct)
  case less
  show ?case
  proof (cases "queue = []")
    case True
    with less.prems show ?thesis by (simp add: reveal_loop.simps)
  next
    case False
    with less.prems(1) obtain g1 q1 a1 where
      st: "reveal_step g queue added = Inr (g1, q1, a1)"
      and rest: "reveal_loop g1 q1 a1 = Inr (g', added')"
      by (subst (asm) reveal_loop.simps) (auto split: sum.splits)
    from reveal_step_invariant [OF st False less.prems(2,3,4,5)]
    have inv: "distinct a1" "distinct q1" "set q1 \<subseteq> set a1"
      "\<forall>p \<in> set a1 - set q1. is_open (buttons g1 p)"
      "set a1 \<subseteq> set added \<union> set (interior (height g) (width g))"
      "height g1 = height g" "width g1 = width g"
      by blast+
    from less.hyps [OF reveal_step_decreases [OF False st] rest inv(1,2,3,4)]
    show ?thesis using inv(5,6,7) by auto
  qed
qed

lemma btn_at_near_interior:
  assumes "(i, j) \<in> set (interior (height g) (width g))" "d \<in> set offsets"
  shows "btn_at g (i + fst d) (j + snd d) = Inr (i + fst d, j + snd d)"
  using assms by (auto simp: set_interior offsets_def btn_at_def py_index_def)

lemma enqueue_neighbours_no_error:
  assumes "cur \<in> set (interior (height g) (width g))" "set ds \<subseteq> set offsets"
  shows "\<exists>r. enqueue_neighbours g cur ds queue added = Inr r"
  using assms(2)
proof (induction ds arbitrary: queue added)
  case Nil
  show ?case by simp
next
  case (Cons d ds)
  obtain i j where cur: "cur = (i, j)" by (cases cur)
  from Cons.prems have d: "d \<in> set offsets" and ds: "set ds \<subseteq> set offsets" by auto
  from btn_at_near_interior [OF assms(1) [unfolded cur] d]
  have "btn_at g (fst cur + fst d) (snd cur + snd d) = Inr (i + fst d, j + snd d)"
    by (simp add: cur)
  then show ?case using Cons.IH [OF ds] by simp
qed

lemma reveal_step_no_error:
  assumes "last queue \<in> set (interior (height g) (width g))"
  shows "\<exists>g' queue' added'. reveal_step g queue added = Inr (g', queue', added')"
proof -
  let ?g1 = "g\<lparr>buttons := (buttons g)(last queue := reveal_cell (buttons g (last queue)))\<rparr>"
  have "last queue \<in> set (interior (height ?g1) (width ?g1))" using assms by simp
  from enqueue_neighbours_no_error [OF this subset_refl, of "butlast queue" added]
  obtain r where "enqueue_neighbours ?g1 (last queue) offsets (butlast queue) added = Inr r"
    by blast
  then show ?thesis by (cases r) (simp add: reveal_step_def Let_def)
qed

lemma reveal_loop_returns:
  assumes "set queue \<subseteq> set (interior (height g) (width g))"
  shows "\<exists>g' added'. reveal_loop g queue added = Inr (g', added')"
  using assms
proof (induction "work_left (g, queue, added)" arbitrary: g queue added rule: less_induct)
  case less
  show ?case
  proof (cases "queue = []")
    case True
    then show ?thesis by (simp add: reveal_loop.simps)
  next
    case False
    then have "last queue \<in> set (interior (height g) (width g))"
      using less.prems last_in_set by blast
    from reveal_step_no_error [OF this] obtain g1 q1 a1 where
      st: "reveal_step g queue added = Inr (g1, q1, a1)" by blast
    have bl: "set (butlast queue) \<subseteq> set (interior (height g) (width g))"
      using less.prems by (meson in_set_butlastD subset_iff)
    from reveal_step_shape [OF st] bl
    have sub: "set q1 \<subseteq> set (interior (height g1) (width g1))"
      by auto
    from less.hyps [OF reveal_step_decreases [OF False st] sub]
    show ?thesis using False st by (subst reveal_loop.simps) simp
  qed
qed

text \<open>
  Claim C4. \<open>reveal_loop\<close> is a total function: its definition is accepted with the
  termination proof above, for every board and every work list. Whenever a call of
  \<open>reveal_empty_region\<close> returns, the list \<open>added\<close> of all references ever put on the
  work list has no repetition, and holds only the starting button and interior cells.
  When the starting button is an interior cell (the only buttons shown and so the only
  ones clicked), the call does return, without an \<open>IndexError\<close>, and the number of
  references put on the work list, which is the number of iterations, is at most
  \<open>height * width\<close>.
\<close>

theorem flood_fill_enqueues_each_cell_once:
  "(\<forall>g' added. reveal_loop g [btn] [btn] = Inr (g', added) \<longrightarrow>
       distinct added \<and> set added \<subseteq> insert btn (set (interior (height g) (width g))))
   \<and> (btn \<in> set (interior (height g) (width g)) \<longrightarrow>
       (\<exists>g' added. reveal_loop g [btn] [btn] = Inr (g', added)
          \<and> reveal_empty_region g btn = Inr g'
          \<and> distinct added \<and> length added \<le> nat (height g) * nat (width g)))"
proof (intro conjI allI impI)
  fix g' added
  assume r: "reveal_loop g [btn] [btn] = Inr (g', added)"
  from reveal_loop_added [OF r] show "distinct added" by simp
  from reveal_loop_added [OF r]
  show "set added \<subseteq> insert btn (set (interior (height g) (width g)))" by auto
next
  assume b: "btn \<in> set (interior (height g) (width g))"
  then have "set [btn] \<subseteq> set (interior (height g) (width g))" by simp
  from reveal_loop_returns [OF this, of "[btn]"] obtain g' added where
    r: "reveal_loop g [btn] [btn] = Inr (g', added)" by blast
  from reveal_loop_added [OF r] b have d: "distinct added"
    and s: "set added \<subseteq> set (interior (height g) (width g))" by auto
  have "length added = card (set added)" using d by (simp add: distinct_card)
  also have "\<dots> \<le> card (set (interior (height g) (width g)))"
    using s by (simp add: card_mono)
  also have "\<dots> \<le> nat (height g) * nat (width g)"
    using card_length [of "interior (height g) (width g)"] by (simp add: length_interior)
  finally have "length added \<le> nat (height g) * nat (width g)" .
  with r d show "\<exists>g' added. reveal_loop g [btn] [btn] = Inr (g', added)
          \<and> reveal_empty_region g btn = Inr g'
          \<and> distinct added \<and> length added \<le> nat (height g) * nat (width g)"
    by (auto simp: reveal_empty_region_def)
qed

theorem flood_fill_enqueues_each_cell_once_witness:
  "(1, 1) \<in> set (interior (height tiny_game) (width tiny_game))
   \<and> (\<exists>g' added. reveal_loop tiny_game [(1, 1)] [(1, 1)] = Inr (g', added)
         \<and> reveal_empty_region tiny_game (1, 1) = Inr g'
         \<and> distinct added \<and> length added \<le> 4)"
proof -
  have h: "(1, 1) \<in> set (interior (height tiny_game) (width tiny_game))"
    by (simp add: set_interior tiny_game_fields)
  from flood_fill_enqueues_each_cell_once [of tiny_game "(1, 1)"] h show ?thesis
    by (simp add: tiny_game_fields)
qed

subsection \<open>Flagged cells\<close>

text \<open>What the guard on the flag does achieve: the fill leaves the text and the widget
  state of every flagged button as they were. It never closes a cell and changes no mine
  and no count.\<close>

lemma reveal_cell_keeps_flag:
  "btn_text b = Flag \<Longrightarrow> btn_text (reveal_cell b) = Flag \<and> state (reveal_cell b) = state b"
  by (simp add: reveal_cell_def)

lemma reveal_loop_keeps_flags:
  assumes "reveal_loop g queue added = Inr (g', added')"
  shows "(btn_text (buttons g p) = Flag \<longrightarrow>
            btn_text (buttons g' p) = Flag \<and> state (buttons g' p) = state (buttons g p))
       \<and> (is_open (buttons g p) \<longrightarrow> is_open (buttons g' p))
       \<and> is_mine (buttons g' p) = is_mine (buttons g p)
       \<and> adjacent_mines (buttons g' p) = adjacent_mines (buttons g p)"
  using assms
proof (induction "work_left (g, queue, added)" arbitrary: g queue added rule: less_induct)
  case less
  show ?case
  proof (cases "queue = []")
    case True
    with less.prems show ?thesis by (simp add: reveal_loop.simps)
  next
    case False
    with less.prems obtain g1 q1 a1 where
      st: "reveal_step g queue added = Inr (g1, q1, a1)"
      and rest: "reveal_loop g1 q1 a1 = Inr (g', added')"
      by (subst (asm) reveal_loop.simps) (auto split: sum.splits)
    from reveal_step_shape [OF st]
    have g1: "g1 = g\<lparr>buttons := (buttons g)(last queue := reveal_cell (buttons g (last queue)))\<rparr>"
      by blast
    have step: "(btn_text (buttons g p) = Flag \<longrightarrow>
            btn_text (buttons g1 p) = Flag \<and> state (buttons g1 p) = state (buttons g p))
       \<and> (is_open (buttons g p) \<longrightarrow> is_open (buttons g1 p))
       \<and> is_mine (buttons g1 p) = is_mine (buttons g p)
       \<and> adjacent_mines (buttons g1 p) = adjacent_mines (buttons g p)"
      by (simp add: g1 reveal_cell_def)
    from less.hyps [OF reveal_step_decreases [OF False st] rest] step
    show ?thesis by simp
  qed
qed

text \<open>
  Claim C2 does not hold of the code. In \<open>reveal_empty_region\<close> the test for the flag
  guards only the change of the display; \<open>cur_btn.is_open = True\<close> stands after it and
  runs for a flagged button too, and the fill goes on through a flagged cell whose count
  is zero. On the board of one row and four cells, the player flags cell 2 and then
  clicks cell 1: after mine placement and the adjacency count, cell 2 is flagged and
  closed; after \<open>reveal_empty_region\<close> it still carries the flag and is open.
\<close>

theorem flood_fill_opens_flagged_cell:
  "(case first_click env0 (toggle_flag tiny_game (1, 2)) (1, 1) of
      Inl err \<Rightarrow> False
    | Inr g \<Rightarrow>
        btn_text (buttons g (1, 2)) = Flag \<and> \<not> is_open (buttons g (1, 2))
        \<and> is_mine (buttons g (1, 4)) \<and> adjacent_mines (buttons g (1, 2)) = 0
        \<and> (case reveal_empty_region g (1, 1) of
              Inl err \<Rightarrow> False
            | Inr g' \<Rightarrow> btn_text (buttons g' (1, 2)) = Flag \<and> is_open (buttons g' (1, 2))
                         \<and> is_open (buttons g' (1, 3))))"
  by code_simp

section \<open>Win detection\<close>

lemma all_clear_iff:
  "all_clear g ps \<longleftrightarrow>
     (\<forall>p \<in> set ps. \<not> is_mine (buttons g p) \<longrightarrow>
         is_open (buttons g p) \<and> btn_text (buttons g p) \<noteq> Flag)"
  by (induction ps) auto

text \<open>
  Claim C3. \<open>check_win\<close> returns \<open>True\<close> exactly when every interior cell that is not
  a mine is open and carries no flag. So it returns \<open>False\<close> as soon as some cell that is
  not a mine is closed, and as soon as some cell that is not a mine carries a flag,
  whatever else is open. It calls \<open>game_won\<close> when it returns \<open>True\<close> and changes nothing
  otherwise.
\<close>

theorem check_win_iff:
  "(fst (check_win e g) \<longleftrightarrow>
      (\<forall>i j. 1 \<le> i \<and> i \<le> height g \<and> 1 \<le> j \<and> j \<le> width g \<and> \<not> is_mine (buttons g (i, j))
         \<longrightarrow> is_open (buttons g (i, j)) \<and> btn_text (buttons g (i, j)) \<noteq> Flag))
   \<and> ((\<exists>i j. 1 \<le> i \<and> i \<le> height g \<and> 1 \<le> j \<and> j \<le> width g
            \<and> \<not> is_mine (buttons g (i, j)) \<and> \<not> is_open (buttons g (i, j)))
        \<longrightarrow> \<not> fst (check_win e g))
   \<and> ((\<exists>i j. 1 \<le> i \<and> i \<le> height g \<and> 1 \<le> j \<and> j \<le> width g
            \<and> \<not> is_mine (buttons g (i, j)) \<and> btn_text (buttons g (i, j)) = Flag)
        \<longrightarrow> \<not> fst (check_win e g))
   \<and> snd (check_win e g) = (if fst (check_win e g) then game_won e g else g)"
proof -
  have "fst (check_win e g) \<longleftrightarrow> all_clear g (interior (height g) (width g))"
    by (simp add: check_win_def)
  also have "\<dots> \<longleftrightarrow>
      (\<forall>i j. 1 \<le> i \<and> i \<le> height g \<and> 1 \<le> j \<and> j \<le> width g \<and> \<not> is_mine (buttons g (i, j))
         \<longrightarrow> is_open (buttons g (i, j)) \<and> btn_text (buttons g (i, j)) \<noteq> Flag)"
    by (auto simp: all_clear_iff set_interior)
  finally have a: "fst (check_win e g) \<longleftrightarrow>
      (\<forall>i j. 1 \<le> i \<and> i \<le> height g \<and> 1 \<le> j \<and> j \<le> width g \<and> \<not> is_mine (buttons g (i, j))
         \<longrightarrow> is_open (buttons g (i, j)) \<and> btn_text (buttons g (i, j)) \<noteq> Flag)" .
  have b: "snd (check_win e g) = (if fst (check_win e g) then game_won e g else g)"
    by (simp add: check_win_def)
  from a b show ?thesis by blast
qed

theorem check_win_iff_witness:
  "fst (check_win env0 won_board) \<and> \<not> fst (check_win env0 sample_game)"
proof -
  have w: "\<forall>i j. 1 \<le> i \<and> i \<le> height won_board \<and> 1 \<le> j \<and> j \<le> width won_board
             \<and> \<not> is_mine (buttons won_board (i, j))
         \<longrightarrow> is_open (buttons won_board (i, j)) \<and> btn_text (buttons won_board (i, j)) \<noteq> Flag"
    by (auto simp: won_board_def new_button_def create_game_grid_def)
  have s: "\<exists>i j. 1 \<le> i \<and> i \<le> height sample_game \<and> 1 \<le> j \<and> j \<le> width sample_game
            \<and> \<not> is_mine (buttons sample_game (i, j)) \<and> \<not> is_open (buttons sample_game (i, j))"
    by (intro exI [of _ 1]) (simp add: sample_game_def new_button_def create_game_grid_def)
  from check_win_iff [of env0 won_board] w check_win_iff [of env0 sample_game] s
  show ?thesis by blast
qed

section \<open>Flags\<close>

lemma toggle_flag_game_over: "game_over g \<Longrightarrow> toggle_flag g button = g"
  by (simp add: toggle_flag_def)

lemma toggle_flag_revealed:
  "state (buttons g button) = Disabled \<Longrightarrow> btn_text (buttons g button) \<noteq> Flag
     \<Longrightarrow> toggle_flag g button = g"
  by (simp add: toggle_flag_def)

lemma toggle_flag_never_negative:
  "0 \<le> flags_left g \<Longrightarrow> 0 \<le> flags_left (toggle_flag g button)"
  by (simp add: toggle_flag_def)

text \<open>
  A new game starts with no flag and the counter at the mine count. As long as flagged
  buttons are disabled and the counter plus the number of flagged cells is the mine
  count, a right click on any interior cell keeps it so; the counter therefore stays
  between 0 and the mine count.
\<close>

lemma new_game_flag_balance:
  "flagged (set_difficulty (h, w, m) g0) = {}
   \<and> flags_left (set_difficulty (h, w, m) g0) = mines (set_difficulty (h, w, m) g0)"
  by (simp add: flagged_def new_game_fields number_cells_frame create_game_grid_def
        new_button_def)

lemma toggle_flag_keeps_flag_balance:
  assumes p: "button \<in> set (interior (height g) (width g))"
      and dis: "\<forall>q. btn_text (buttons g q) = Flag \<longrightarrow> state (buttons g q) = Disabled"
      and bal: "flags_left g + int (card (flagged g)) = mines g"
      and nn: "0 \<le> flags_left g"
  shows "(\<forall>q. btn_text (buttons (toggle_flag g button) q) = Flag
              \<longrightarrow> state (buttons (toggle_flag g button) q) = Disabled)
       \<and> flags_left (toggle_flag g button) + int (card (flagged (toggle_flag g button)))
           = mines (toggle_flag g button)
       \<and> 0 \<le> flags_left (toggle_flag g button)
       \<and> flags_left (toggle_flag g button) \<le> mines (toggle_flag g button)"
proof -
  have fin: "finite (flagged g)" by (simp add: flagged_def)
  let ?g' = "toggle_flag g button"
  have main: "(\<forall>q. btn_text (buttons ?g' q) = Flag \<longrightarrow> state (buttons ?g' q) = Disabled)
       \<and> flags_left ?g' + int (card (flagged ?g')) = mines ?g' \<and> 0 \<le> flags_left ?g'"
  proof (cases "game_over g")
    case True
    then show ?thesis using dis bal nn by (simp add: toggle_flag_def)
  next
    case False
    show ?thesis
    proof (cases "state (buttons g button) = Normal \<and> flags_left g > 0")
      case True
      have "btn_text (buttons g button) \<noteq> Flag"
      proof
        assume "btn_text (buttons g button) = Flag"
        with dis have "state (buttons g button) = Disabled" by blast
        with True show False by simp
      qed
      then have nf: "button \<notin> flagged g" by (simp add: flagged_def)
      have "flagged ?g' = insert button (flagged g)"
        using True False p by (auto simp: toggle_flag_def flagged_def)
      then have "card (flagged ?g') = Suc (card (flagged g))" using nf fin by simp
      then show ?thesis using True False dis bal by (simp add: toggle_flag_def)
    next
      case nplace: False
      show ?thesis
      proof (cases "btn_text (buttons g button) = Flag")
        case True
        then have mem: "button \<in> flagged g" using p by (simp add: flagged_def)
        have eq: "?g' = g\<lparr>flags_left := flags_left g + 1,
                    buttons := (buttons g)(button :=
                      (buttons g button)\<lparr>state := Normal, btn_text := Blank\<rparr>)\<rparr>"
          using True \<open>\<not> game_over g\<close> nplace by (auto simp: toggle_flag_def)
        have "flagged ?g' = flagged g - {button}"
          unfolding eq by (auto simp: flagged_def)
        then have "card (flagged ?g') = card (flagged g) - 1" using mem fin by simp
        moreover have "card (flagged g) > 0" using mem fin by (auto simp: card_gt_0_iff)
        ultimately have c: "int (card (flagged ?g')) = int (card (flagged g)) - 1" by simp
        have f: "flags_left ?g' = flags_left g + 1" "mines ?g' = mines g"
          unfolding eq by simp_all
        have d: "\<forall>q. btn_text (buttons ?g' q) = Flag \<longrightarrow> state (buttons ?g' q) = Disabled"
          unfolding eq using dis by simp
        from c f d bal nn show ?thesis by simp
      next
        case False
        then have "?g' = g" using nplace \<open>\<not> game_over g\<close>
          by (auto simp: toggle_flag_def)
        then show ?thesis using dis bal nn by simp
      qed
    qed
  qed
  then have "flags_left ?g' \<le> mines ?g'" by linarith
  with main show ?thesis by blast
qed

text \<open>
  Claim C9 does not hold of the code, for the reason claim C2 fails. \<open>toggle_flag\<close>
  never reads \<open>is_open\<close>: it tells a revealed cell by its widget state, and the flood
  fill leaves a flagged cell it has marked open looking flagged. On the board of one row
  and four cells, after the player has flagged cell 2 and clicked cell 1, cell 2 is open.
  A right click on it is not a no-op: it removes the flag and raises the counter from
  0 to 1. A second right click puts a flag on the open cell.
\<close>

theorem toggle_flag_acts_on_open_cell:
  "(case handle_click env0 (toggle_flag tiny_game (1, 2)) (1, 1) of
      Inl err \<Rightarrow> False
    | Inr g \<Rightarrow>
        \<not> game_over g \<and> is_open (buttons g (1, 2)) \<and> flags_left g = 0
        \<and> (let g1 = toggle_flag g (1, 2); g2 = toggle_flag g1 (1, 2)
            in flags_left g1 = 1 \<and> btn_text (buttons g1 (1, 2)) = Blank
               \<and> state (buttons g1 (1, 2)) = Normal \<and> is_open (buttons g1 (1, 2))
               \<and> flags_left g2 = 0 \<and> btn_text (buttons g2 (1, 2)) = Flag
               \<and> is_open (buttons g2 (1, 2))))"
  by code_simp

section \<open>Leaderboard store\<close>

subsection \<open>Loading\<close>

lemma read_rows_map_filter:
  "read_rows to_int rows acc = acc @ List.map_filter (row_entry to_int) rows"
proof (induction rows arbitrary: acc)
  case Nil
  show ?case by (simp add: List.map_filter_simps)
next
  case (Cons row rows)
  show ?case
    by (simp add: Cons.IH row_entry_def List.map_filter_simps min_def
             split: list.splits option.splits)
qed

lemma leaderboards_load_one_same:
  "leaderboards (load_one e d g) d =
     (case files g d of
        None \<Rightarrow> leaderboards g d
      | Some Unreadable \<Rightarrow> []
      | Some (Rows rows) \<Rightarrow> load_spec (int_of_str e) rows)"
  by (simp add: load_one_def load_spec_def surviving_def read_rows_map_filter
           split: option.splits csv_file.splits)

lemma leaderboards_load_one_other:
  "d' \<noteq> d \<Longrightarrow> leaderboards (load_one e d g) d' = leaderboards g d'"
  by (simp add: load_one_def split: option.splits csv_file.splits)

lemma files_load_one [simp]: "files (load_one e d g) = files g"
  by (simp add: load_one_def split: option.splits csv_file.splits)

lemma leaderboards_load:
  "leaderboards (load_leaderboards e g) d =
     (case files g d of
        None \<Rightarrow> leaderboards g d
      | Some Unreadable \<Rightarrow> []
      | Some (Rows rows) \<Rightarrow> load_spec (int_of_str e) rows)"
  by (cases d) (simp_all add: load_leaderboards_def leaderboards_load_one_same leaderboards_load_one_other split: option.splits csv_file.splits)

lemma files_load [simp]: "files (load_leaderboards e g) = files g"
  by (simp add: load_leaderboards_def)

lemma load_frame [simp]:
  "player_name (load_leaderboards e g) = player_name g"
  "dialogs (load_leaderboards e g) = dialogs g"
  "height (load_leaderboards e g) = height g"
  "width (load_leaderboards e g) = width g"
  "mines (load_leaderboards e g) = mines g"
  "buttons (load_leaderboards e g) = buttons g"
  by (simp_all add: load_leaderboards_def load_one_def split: option.splits csv_file.splits)

lemma row_entry_bounds:
  "row_entry to_int row = Some en \<Longrightarrow>
     1 \<le> time en \<and> time en \<le> 999 \<and> name en \<noteq> None \<and> name en \<noteq> Some []"
  by (auto simp: row_entry_def split: list.splits option.splits if_splits)

lemma in_map_filterD:
  "y \<in> set (List.map_filter f xs) \<Longrightarrow> \<exists>x \<in> set xs. f x = Some y"
  by (induction xs) (auto split: option.splits)

lemma surviving_bounds:
  "en \<in> set (surviving to_int rows) \<Longrightarrow>
     1 \<le> time en \<and> time en \<le> 999 \<and> name en \<noteq> None \<and> name en \<noteq> Some []"
  unfolding surviving_def using row_entry_bounds in_map_filterD by meson

lemma load_spec_subset: "set (load_spec to_int rows) \<subseteq> set (surviving to_int rows)"
  unfolding load_spec_def using set_take_subset[of 5 "sort_key time (surviving to_int rows)"]
  by simp

lemma ascii_int_samples:
  "ascii_int ''-5'' = Some (- 5)" "ascii_int ''abc'' = None" "ascii_int ''12'' = Some 12"
  "ascii_int ''5000'' = Some 5000" "ascii_int ''1500'' = Some 1500" "ascii_int ''0'' = Some 0"
  by (simp_all add: ascii_int_def digit_val_def)

lemma py_str_samples:
  "py_str 7 = ''7''" "py_str 12 = ''12''" "py_str 999 = ''999''" "py_str 1500 = ''1500''"
  "py_str 0 = ''0''"
  by (simp_all add: py_str_def str_nat.simps)

lemma load_sample:
  "load_spec ascii_int sample_rows =
     [\<lparr>name = Some ''amy'', time = 12\<rparr>, \<lparr>name = Some ''Anonymous'', time = 12\<rparr>,
      \<lparr>name = Some ''zed'', time = 999\<rparr>]"
  by (simp add: load_spec_def surviving_def sample_rows_def row_entry_def ascii_int_samples
        List.map_filter_simps)

text \<open>
  Claim C7. Whatever rows a leaderboard file holds, loading it keeps exactly the rows the
  specification calls well formed (two fields, an integer time, a positive time), with
  times above 999 clamped and empty names replaced, sorted by time with ties in file
  order, and cut to five: the table computed by the loop of \<open>load_leaderboards\<close> is
  \<open>load_spec\<close>. The result is sorted, has at most five entries, each with a time in
  \<open>1..999\<close> and a non-empty name, and the sort keeps entries of equal time in the order
  of the file. The loader is a total function into game states: no row makes it raise.
\<close>

theorem load_leaderboards_rows:
  assumes "files g d = Some (Rows rows)"
  shows "leaderboards (load_leaderboards e g) d = load_spec (int_of_str e) rows
       \<and> sorted (map time (load_spec (int_of_str e) rows))
       \<and> length (load_spec (int_of_str e) rows) \<le> 5
       \<and> (\<forall>k. filter (\<lambda>en. time en = k) (sort_key time (surviving (int_of_str e) rows))
                = filter (\<lambda>en. time en = k) (surviving (int_of_str e) rows))
       \<and> (\<forall>en \<in> set (load_spec (int_of_str e) rows).
             1 \<le> time en \<and> time en \<le> 999 \<and> name en \<noteq> None \<and> name en \<noteq> Some [])"
proof -
  have a: "leaderboards (load_leaderboards e g) d = load_spec (int_of_str e) rows"
    using assms by (simp add: leaderboards_load)
  have b: "sorted (map time (load_spec (int_of_str e) rows))"
    by (simp add: load_spec_def take_map [symmetric] sorted_wrt_take)
  have c: "length (load_spec (int_of_str e) rows) \<le> 5"
    by (simp add: load_spec_def)
  have d: "\<forall>k. filter (\<lambda>en. time en = k) (sort_key time (surviving (int_of_str e) rows))
                = filter (\<lambda>en. time en = k) (surviving (int_of_str e) rows)"
    by (simp add: sort_key_stable)
  have e: "\<forall>en \<in> set (load_spec (int_of_str e) rows).
             1 \<le> time en \<and> time en \<le> 999 \<and> name en \<noteq> None \<and> name en \<noteq> Some []"
    using load_spec_subset surviving_bounds by blast
  from a b c d e show ?thesis by blast
qed

theorem load_leaderboards_rows_witness:
  "files sample_game Beginner = Some (Rows sample_rows)
   \<and> leaderboards (load_leaderboards env0 sample_game) Beginner =
       [\<lparr>name = Some ''amy'', time = 12\<rparr>, \<lparr>name = Some ''Anonymous'', time = 12\<rparr>,
        \<lparr>name = Some ''zed'', time = 999\<rparr>]"
proof -
  have h: "files sample_game Beginner = Some (Rows sample_rows)"
    by (simp add: sample_game_def)
  from load_leaderboards_rows [OF h, of env0] show ?thesis
    using h by (simp add: load_sample env0_def)
qed

subsection \<open>Submitting a time\<close>

lemma save_files:
  "files (save_leaderboards g) d = Some (Rows (map entry_row (leaderboards g d)))"
  by (cases d) (simp_all add: save_leaderboards_def save_one_def)

lemma save_frame [simp]:
  "leaderboards (save_leaderboards g) = leaderboards g"
  "player_name (save_leaderboards g) = player_name g"
  "dialogs (save_leaderboards g) = dialogs g"
  "height (save_leaderboards g) = height g"
  "width (save_leaderboards g) = width g"
  "mines (save_leaderboards g) = mines g"
  "buttons (save_leaderboards g) = buttons g"
  by (simp_all add: save_leaderboards_def save_one_def)

lemma prompt_frame [simp]:
  "leaderboards (prompt_player_name e g d) = leaderboards g"
  "files (prompt_player_name e g d) = files g"
  "dialogs (prompt_player_name e g d) = dialogs g @ [NamePrompt d]"
  by (simp_all add: prompt_player_name_def)

lemma show_frame [simp]:
  "files (show_leaderboards e g) = files g"
  "dialogs (show_leaderboards e g) = dialogs g @ [LeaderboardWindow]"
  by (simp_all add: show_leaderboards_def Let_def)

lemma fold_disable_frame [simp]:
  "leaderboards (fold disable_cell ps g) = leaderboards g"
  "files (fold disable_cell ps g) = files g"
  "player_name (fold disable_cell ps g) = player_name g"
  "dialogs (fold disable_cell ps g) = dialogs g"
  by (induction ps arbitrary: g) (simp_all add: disable_cell_def)

lemma sort_key_take_member:
  assumes "length xs < 5 \<or> (length xs = 5 \<and> f x < f (last xs))"
  shows "x \<in> set (take 5 (sort_key f (xs @ [x])))"
proof -
  let ?L = "sort_key f (xs @ [x])"
  have len: "length ?L = Suc (length xs)" by simp
  have mem: "x \<in> set ?L" by simp
  from assms show ?thesis
  proof
    assume "length xs < 5"
    then show ?thesis using len mem by simp
  next
    assume a: "length xs = 5 \<and> f x < f (last xs)"
    then have ne: "xs \<noteq> []" by auto
    from mem obtain i where i: "i < length ?L" "?L ! i = x"
      by (metis in_set_conv_nth)
    have "last xs \<in> set ?L" using ne by simp
    then obtain j where j: "j < length ?L" "?L ! j = last xs"
      by (metis in_set_conv_nth)
    have srt: "sorted (map f ?L)" by simp
    have "i < 5"
    proof (rule ccontr)
      assume "\<not> i < 5"
      with i len a have i5: "i = 5" by simp
      have "j \<le> i" using j len a i5 by simp
      have il: "i < length (map f ?L)" using i by simp
      from sorted_nth_mono[OF srt \<open>j \<le> i\<close> il]
      have "map f ?L ! j \<le> map f ?L ! i" .
      then have "f (?L ! j) \<le> f (?L ! i)" using i(1) j(1) by simp
      then have "f (last xs) \<le> f x" using i j by simp
      with a show False by (metis leD)
    qed
    then show ?thesis using i by (auto simp: in_set_conv_nth intro!: exI[of _ i])
  qed
qed

text \<open>
  What \<open>update_leaderboard\<close> does. It first reloads the tables. If the table of the
  difficulty then has fewer than five entries, or the time is strictly below the time of
  its last entry, the player is prompted, the new entry is among the (at most five)
  entries written to the file of that difficulty, the leaderboard window is shown, and
  the table left in memory is what loading the rows just written gives. Otherwise the
  state is the reloaded one: no prompt, no window, and every file as it was. The bound on
  the table in memory matters only when the file does not exist (a loaded table never has
  more than five entries).
\<close>

lemma leaderboards_show [simp]:
  "leaderboards (show_leaderboards e g) = leaderboards (load_leaderboards e g)"
  by (simp add: show_leaderboards_def Let_def)

lemma update_leaderboard_effect:
  assumes "length (leaderboards g d) \<le> 5"
  shows "(let g1 = load_leaderboards e g;
              entries = leaderboards g1 d;
              new = \<lparr>name = player_name (prompt_player_name e g1 d), time = t\<rparr>;
              kept = take 5 (sort_key time (entries @ [new]));
              g' = update_leaderboard e g d t
          in if length entries < 5 \<or> t < time (last entries)
             then files g' d = Some (Rows (map entry_row kept)) \<and> new \<in> set kept
                  \<and> leaderboards g' d = load_spec (int_of_str e) (map entry_row kept)
                  \<and> dialogs g' = dialogs g @ [NamePrompt d, LeaderboardWindow]
             else g' = g1 \<and> files g' = files g \<and> dialogs g' = dialogs g)"
proof -
  define g1 where "g1 = load_leaderboards e g"
  define entries where "entries = leaderboards g1 d"
  define new where "new = \<lparr>name = player_name (prompt_player_name e g1 d), time = t\<rparr>"
  have len: "length entries \<le> 5"
    using assms unfolding entries_def g1_def
    by (simp add: leaderboards_load load_spec_def split: option.splits csv_file.splits)
  show ?thesis
  proof (cases "length entries < 5 \<or> t < time (last entries)")
    case True
    then have "length entries < 5 \<or> (length entries = 5 \<and> time new < time (last entries))"
      using len by (auto simp: new_def)
    then have mem: "new \<in> set (take 5 (sort_key time (entries @ [new])))"
      by (rule sort_key_take_member)
    have fl: "files (update_leaderboard e g d t) d
                = Some (Rows (map entry_row (take 5 (sort_key time (entries @ [new])))))"
      using True
      by (simp add: update_leaderboard_def Let_def save_files g1_def [symmetric]
            entries_def [symmetric] new_def [symmetric])
    have tb: "leaderboards (update_leaderboard e g d t) d
                = load_spec (int_of_str e)
                    (map entry_row (take 5 (sort_key time (entries @ [new]))))"
      using True
      by (simp add: update_leaderboard_def Let_def leaderboards_load save_files
            g1_def [symmetric] entries_def [symmetric] new_def [symmetric])
    have dl: "dialogs (update_leaderboard e g d t) = dialogs g @ [NamePrompt d, LeaderboardWindow]"
      using True
      by (simp add: update_leaderboard_def Let_def g1_def [symmetric] entries_def [symmetric],
          simp add: g1_def)
    from True mem fl tb dl show ?thesis
      by (simp add: Let_def g1_def [symmetric] entries_def [symmetric] new_def [symmetric])
  next
    case False
    then have "update_leaderboard e g d t = g1"
      by (simp add: update_leaderboard_def Let_def g1_def [symmetric] entries_def [symmetric])
    with False show ?thesis
      by (simp add: Let_def g1_def [symmetric] entries_def [symmetric], simp add: g1_def)
  qed
qed

lemma update_leaderboard_effect_example:
  "length (leaderboards sample_game Beginner) \<le> 5
   \<and> files (update_leaderboard env0 sample_game Beginner 7) Beginner =
       Some (Rows [[''Bob'', ''7''], [''amy'', ''12''], [''Anonymous'', ''12''], [''zed'', ''999'']])
   \<and> dialogs (update_leaderboard env0 sample_game Beginner 7) =
       [NamePrompt Beginner, LeaderboardWindow]"
proof -
  have h: "length (leaderboards sample_game Beginner) \<le> 5"
    by (simp add: sample_game_def)
  have f: "files sample_game Beginner = Some (Rows sample_rows)"
    by (simp add: sample_game_def)
  have l: "leaderboards (load_leaderboards env0 sample_game) Beginner =
             [\<lparr>name = Some ''amy'', time = 12\<rparr>, \<lparr>name = Some ''Anonymous'', time = 12\<rparr>,
              \<lparr>name = Some ''zed'', time = 999\<rparr>]"
    by (simp add: leaderboards_load f load_sample env0_def)
  have p: "player_name (prompt_player_name env0 (load_leaderboards env0 sample_game) Beginner)
             = Some ''Bob''"
    by (simp add: prompt_player_name_def env0_def)
  have d: "dialogs sample_game = []" by (simp add: sample_game_def)
  from update_leaderboard_effect [OF h, of env0 7] show ?thesis
    using h by (simp add: Let_def l p d entry_row_def py_str_samples)
qed

text \<open>
  The rows written for valid entries load back as the same entries. So for a time from 1 to
  999, a player who presses OK and an \<open>int()\<close> that reads back what \<open>str\<close> printed, a
  qualifying time over an existing file ends in the table in memory, which is the old
  table with the new entry sorted in and cut to five.
\<close>

lemma row_entry_entry_row:
  assumes "to_int (py_str (time en)) = Some (time en)" "1 \<le> time en" "time en \<le> 999"
      and "name en = Some nm" "nm \<noteq> []"
  shows "row_entry to_int (entry_row en) = Some en"
  using assms by (simp add: row_entry_def entry_row_def)

lemma surviving_round_trip:
  assumes "\<forall>en \<in> set kept. to_int (py_str (time en)) = Some (time en)
              \<and> 1 \<le> time en \<and> time en \<le> 999 \<and> (\<exists>nm. name en = Some nm \<and> nm \<noteq> [])"
  shows "surviving to_int (map entry_row kept) = kept"
  using assms
proof (induction kept)
  case Nil
  show ?case by (simp add: surviving_def)
next
  case (Cons en kept)
  then obtain nm where "name en = Some nm" "nm \<noteq> []" by auto
  with Cons.prems have "row_entry to_int (entry_row en) = Some en"
    by (intro row_entry_entry_row) auto
  with Cons show ?case by (simp add: surviving_def)
qed

lemma load_spec_round_trip:
  assumes "\<forall>en \<in> set kept. to_int (py_str (time en)) = Some (time en)
              \<and> 1 \<le> time en \<and> time en \<le> 999 \<and> (\<exists>nm. name en = Some nm \<and> nm \<noteq> [])"
      and "sorted (map time kept)" "length kept \<le> 5"
  shows "load_spec to_int (map entry_row kept) = kept"
  using assms by (simp add: load_spec_def surviving_round_trip sort_key_id_if_sorted)

lemma update_leaderboard_enters_valid_time:
  assumes fl: "files g d = Some (Rows rows)"
      and t: "1 \<le> t" "t \<le> 999"
      and nm: "typed_name e = Some nm"
      and inv: "\<forall>v. 1 \<le> v \<and> v \<le> 999 \<longrightarrow> int_of_str e (py_str v) = Some v"
      and q: "length (load_spec (int_of_str e) rows) < 5
              \<or> t < time (last (load_spec (int_of_str e) rows))"
  shows "\<lparr>name = Some (if nm = [] then ''Anonymous'' else nm), time = t\<rparr>
           \<in> set (leaderboards (update_leaderboard e g d t) d)
       \<and> leaderboards (update_leaderboard e g d t) d =
           take 5 (sort_key time (load_spec (int_of_str e) rows
              @ [\<lparr>name = Some (if nm = [] then ''Anonymous'' else nm), time = t\<rparr>]))"
proof -
  let ?entries = "load_spec (int_of_str e) rows"
  let ?new = "\<lparr>name = Some (if nm = [] then ''Anonymous'' else nm), time = t\<rparr>"
  let ?kept = "take 5 (sort_key time (?entries @ [?new]))"
  have tb: "leaderboards (update_leaderboard e g d t) d
              = load_spec (int_of_str e) (map entry_row ?kept)"
    using q fl nm
    by (simp add: update_leaderboard_def Let_def leaderboards_load save_files
          prompt_player_name_def)
  have mem: "?new \<in> set ?kept"
  proof (rule sort_key_take_member)
    have "length ?entries \<le> 5" by (simp add: load_spec_def)
    with q show "length ?entries < 5 \<or> (length ?entries = 5 \<and> time ?new < time (last ?entries))"
      by auto
  qed
  have valid: "\<forall>en \<in> set ?kept. int_of_str e (py_str (time en)) = Some (time en)
              \<and> 1 \<le> time en \<and> time en \<le> 999 \<and> (\<exists>nm. name en = Some nm \<and> nm \<noteq> [])"
  proof
    fix en assume "en \<in> set ?kept"
    then have "en \<in> set ?entries \<or> en = ?new"
      using set_take_subset [of 5 "sort_key time (?entries @ [?new])"] by auto
    then show "int_of_str e (py_str (time en)) = Some (time en)
              \<and> 1 \<le> time en \<and> time en \<le> 999 \<and> (\<exists>nm. name en = Some nm \<and> nm \<noteq> [])"
    proof
      assume "en \<in> set ?entries"
      then have "en \<in> set (surviving (int_of_str e) rows)" using load_spec_subset by blast
      from surviving_bounds [OF this] inv show ?thesis by (cases "name en") auto
    next
      assume "en = ?new"
      then show ?thesis using t inv by simp
    qed
  qed
  have srt: "sorted (map time ?kept)"
    by (simp add: take_map [symmetric] sorted_wrt_take del: map_append)
  have "load_spec (int_of_str e) (map entry_row ?kept) = ?kept"
    using valid srt by (intro load_spec_round_trip) simp_all
  with tb mem show ?thesis by simp
qed

subsection \<open>Winning\<close>

lemma current_difficulty_None:
  "(height g, width g, mines g) \<notin> {BEGINNER_OPTIONS, INTERMEDIATE_OPTIONS, EXPERT_OPTIONS}
   \<Longrightarrow> current_difficulty (g\<lparr>timer_running := a, game_over := b, dialogs := c\<rparr>) = None"
  by (simp add: current_difficulty_def)

text \<open>
  Claim C10. A win on a board whose settings are none of the three presets changes no
  leaderboard table, writes no file, leaves the stored player name alone and opens no
  dialog other than the congratulation box: in particular no name prompt.
\<close>

theorem custom_win_leaves_leaderboards:
  assumes "(height g, width g, mines g) \<notin> {BEGINNER_OPTIONS, INTERMEDIATE_OPTIONS, EXPERT_OPTIONS}"
  shows "leaderboards (game_won e g) = leaderboards g
       \<and> files (game_won e g) = files g
       \<and> player_name (game_won e g) = player_name g
       \<and> dialogs (game_won e g) = dialogs g @ [WonBox (elapsed e)]"
  using current_difficulty_None [OF assms] by (simp add: game_won_def Let_def)

theorem custom_win_leaves_leaderboards_witness:
  "(height sample_game, width sample_game, mines sample_game)
      \<notin> {BEGINNER_OPTIONS, INTERMEDIATE_OPTIONS, EXPERT_OPTIONS}
   \<and> leaderboards (game_won env0 sample_game) Beginner = []
   \<and> files (game_won env0 sample_game) Beginner = Some (Rows sample_rows)
   \<and> player_name (game_won env0 sample_game) = None
   \<and> dialogs (game_won env0 sample_game) = [WonBox 1500]"
proof -
  have h: "(height sample_game, width sample_game, mines sample_game)
             \<notin> {BEGINNER_OPTIONS, INTERMEDIATE_OPTIONS, EXPERT_OPTIONS}"
    by (simp add: sample_game_def BEGINNER_OPTIONS_def INTERMEDIATE_OPTIONS_def
          EXPERT_OPTIONS_def)
  from custom_win_leaves_leaderboards [OF h, of env0] show ?thesis
    using h by (simp add: sample_game_def env0_def)
qed

lemma expert_game_fields:
  "height expert_game = 16" "width expert_game = 30" "mines expert_game = 99"
  "files expert_game = (\<lambda>_. None)" "leaderboards expert_game = (\<lambda>_. [])"
  "player_name expert_game = None" "dialogs expert_game = []"
  by (simp_all add: expert_game_def set_difficulty_def reset_game_def init_game_def
        EXPERT_OPTIONS_def)

text \<open>
  Claim C6 does not hold of the code. \<open>game_won\<close> passes the elapsed seconds to
  \<open>update_leaderboard\<close> as they are, and \<open>update_leaderboard\<close> stores and saves them
  without the clamp that \<open>load_leaderboards\<close> applies. On the expert preset with no
  file yet, a win after 1500 seconds writes the row \<open>Bob,1500\<close>, and a win within the
  first second writes \<open>Bob,0\<close>, a row that the reload at the end of the same call
  discards again, so that the table in memory ends empty.
\<close>

theorem slow_win_is_stored_unclamped:
  "files (game_won env0 expert_game) Expert = Some (Rows [[''Bob'', ''1500'']])
   \<and> files (game_won (env0\<lparr>elapsed := 0\<rparr>) expert_game) Expert = Some (Rows [[''Bob'', ''0'']])
   \<and> leaderboards (game_won (env0\<lparr>elapsed := 0\<rparr>) expert_game) Expert = []"
proof -
  have cd: "\<And>a b c. current_difficulty (expert_game\<lparr>timer_running := a, game_over := b,
                 dialogs := c\<rparr>) = Some Expert"
    by (simp add: current_difficulty_def expert_game_fields BEGINNER_OPTIONS_def
          INTERMEDIATE_OPTIONS_def EXPERT_OPTIONS_def)
  have a: "files (game_won env0 expert_game) Expert = Some (Rows [[''Bob'', ''1500'']])"
    by (simp add: game_won_def Let_def cd update_leaderboard_def leaderboards_load
          expert_game_fields save_files prompt_player_name_def env0_def entry_row_def
          py_str_samples)
  have b: "files (game_won (env0\<lparr>elapsed := 0\<rparr>) expert_game) Expert
             = Some (Rows [[''Bob'', ''0'']])"
    by (simp add: game_won_def Let_def cd update_leaderboard_def leaderboards_load
          expert_game_fields save_files prompt_player_name_def env0_def entry_row_def
          py_str_samples)
  have c: "leaderboards (game_won (env0\<lparr>elapsed := 0\<rparr>) expert_game) Expert = []"
    by (simp add: game_won_def Let_def cd update_leaderboard_def leaderboards_load
          expert_game_fields save_files prompt_player_name_def env0_def entry_row_def
          py_str_samples show_leaderboards_def load_spec_def surviving_def row_entry_def
          ascii_int_samples)
  from a b c show ?thesis by simp
qed

lemma full_game_fields:
  "height full_game = 9" "width full_game = 9" "mines full_game = 15"
  "files full_game Beginner = Some (Rows full_rows)"
  "player_name full_game = None" "dialogs full_game = []"
  by (simp_all add: full_game_def init_game_def)

lemma ascii_int_full:
  "ascii_int ''10'' = Some 10" "ascii_int ''20'' = Some 20" "ascii_int ''30'' = Some 30"
  "ascii_int ''40'' = Some 40" "ascii_int ''50'' = Some 50"
  by (simp_all add: ascii_int_def digit_val_def)

lemma py_str_full:
  "py_str 10 = ''10''" "py_str 20 = ''20''" "py_str 30 = ''30''" "py_str 40 = ''40''"
  "py_str 50 = ''50''"
  by (simp_all add: py_str_def str_nat.simps)

lemma load_full:
  "load_spec ascii_int full_rows =
     [\<lparr>name = Some ''a'', time = 10\<rparr>, \<lparr>name = Some ''b'', time = 20\<rparr>,
      \<lparr>name = Some ''c'', time = 30\<rparr>, \<lparr>name = Some ''d'', time = 40\<rparr>,
      \<lparr>name = Some ''e'', time = 50\<rparr>]"
  by (simp add: load_spec_def surviving_def full_rows_def row_entry_def ascii_int_full)

text \<open>
  Claim C8 does not hold of the code, through the defect that fails claim C6.
  \<open>update_leaderboard\<close> accepts every time that passes its comparison, also a time
  that \<open>load_leaderboards\<close> rejects, and it ends by reloading the table from the file it
  has just written. On the beginner preset over a file of five entries with times 10 to
  50, a win within the first second qualifies (0 is below 50): the player is prompted and
  the row \<open>Bob,0\<close> is written in place of the fifth entry. The reload discards that row,
  so the table in memory ends with four entries: the winning time is not in the
  leaderboard, and the old fifth entry is gone as well.
\<close>

theorem instant_win_is_not_entered:
  "leaderboards (load_leaderboards (env0\<lparr>elapsed := 0\<rparr>) full_game) Beginner =
     [\<lparr>name = Some ''a'', time = 10\<rparr>, \<lparr>name = Some ''b'', time = 20\<rparr>,
      \<lparr>name = Some ''c'', time = 30\<rparr>, \<lparr>name = Some ''d'', time = 40\<rparr>,
      \<lparr>name = Some ''e'', time = 50\<rparr>]
   \<and> dialogs (game_won (env0\<lparr>elapsed := 0\<rparr>) full_game) =
       [WonBox 0, NamePrompt Beginner, LeaderboardWindow]
   \<and> files (game_won (env0\<lparr>elapsed := 0\<rparr>) full_game) Beginner =
       Some (Rows [[''Bob'', ''0''], [''a'', ''10''], [''b'', ''20''], [''c'', ''30''],
                   [''d'', ''40'']])
   \<and> leaderboards (game_won (env0\<lparr>elapsed := 0\<rparr>) full_game) Beginner =
       [\<lparr>name = Some ''a'', time = 10\<rparr>, \<lparr>name = Some ''b'', time = 20\<rparr>,
        \<lparr>name = Some ''c'', time = 30\<rparr>, \<lparr>name = Some ''d'', time = 40\<rparr>]"
proof -
  let ?e = "env0\<lparr>elapsed := 0\<rparr>"
  have cd: "\<And>a b c. current_difficulty (full_game\<lparr>timer_running := a, game_over := b,
                 dialogs := c\<rparr>) = Some Beginner"
    by (simp add: current_difficulty_def full_game_fields BEGINNER_OPTIONS_def)
  have l: "leaderboards (load_leaderboards ?e full_game) Beginner =
     [\<lparr>name = Some ''a'', time = 10\<rparr>, \<lparr>name = Some ''b'', time = 20\<rparr>,
      \<lparr>name = Some ''c'', time = 30\<rparr>, \<lparr>name = Some ''d'', time = 40\<rparr>,
      \<lparr>name = Some ''e'', time = 50\<rparr>]"
    by (simp add: leaderboards_load full_game_fields load_full env0_def)
  have l': "\<And>e' a b c. int_of_str e' = ascii_int \<Longrightarrow>
              leaderboards (load_leaderboards e' (full_game\<lparr>timer_running := a,
                 game_over := b, dialogs := c\<rparr>)) Beginner =
     [\<lparr>name = Some ''a'', time = 10\<rparr>, \<lparr>name = Some ''b'', time = 20\<rparr>,
      \<lparr>name = Some ''c'', time = 30\<rparr>, \<lparr>name = Some ''d'', time = 40\<rparr>,
      \<lparr>name = Some ''e'', time = 50\<rparr>]"
    by (simp add: leaderboards_load full_game_fields load_full)
  have d: "dialogs (game_won ?e full_game) = [WonBox 0, NamePrompt Beginner, LeaderboardWindow]"
    by (simp add: game_won_def Let_def cd update_leaderboard_def l' full_game_fields env0_def)
  have f: "files (game_won ?e full_game) Beginner =
       Some (Rows [[''Bob'', ''0''], [''a'', ''10''], [''b'', ''20''], [''c'', ''30''],
                   [''d'', ''40'']])"
    by (simp add: game_won_def Let_def cd update_leaderboard_def l' save_files
          prompt_player_name_def env0_def entry_row_def py_str_samples py_str_full)
  have t: "leaderboards (game_won ?e full_game) Beginner =
       [\<lparr>name = Some ''a'', time = 10\<rparr>, \<lparr>name = Some ''b'', time = 20\<rparr>,
        \<lparr>name = Some ''c'', time = 30\<rparr>, \<lparr>name = Some ''d'', time = 40\<rparr>]"
    by (simp add: game_won_def Let_def cd update_leaderboard_def l' save_files
          prompt_player_name_def env0_def entry_row_def py_str_samples py_str_full
          show_leaderboards_def leaderboards_load full_game_fields load_full,
        simp add: load_spec_def surviving_def row_entry_def ascii_int_samples ascii_int_full)
  from l d f t show ?thesis by simp
qed

end
